theory Spec2Isabelle
  imports Complex_Main "HOL-Library.Word"
begin

unbundle bit_operations_syntax

text \<open>
  A shallow embedding of the HX711 driver: the ADC class with its two's complement
  conversion and its aggregation of a batch of reads, and the controller with its read
  cycle over a shared clock line, its batch read and its zeroing. Methods become
  functions that take the object and return it updated; the GPIO lines, the clock and
  the log are an explicit trace and a hardware parameter; exceptions are values.
\<close>

section \<open>Exceptions\<close>

text \<open>
  A Python exception is a value. The number is the source line of the statement that
  raises it (in \<^verbatim>\<open>adc.py\<close> for the ADC methods, in \<^verbatim>\<open>hx711.py\<close> for the controller's);
  for an exception raised inside the \<^verbatim>\<open>statistics\<close> module it is the line of the call.
  When a method raises, the partly updated object is not part of the result.
\<close>

datatype error =
    ValueError nat
  | TypeError nat
  | ZeroDivisionError nat
  | StatisticsError nat
  | IndexError nat
  | Exception nat

section \<open>The \<^verbatim>\<open>statistics\<close> functions used by the ADC\<close>

text \<open>
  \<^verbatim>\<open>median\<close>, \<open>stdev\<close> and \<open>mean\<close> of Python's standard library, on exact real numbers:
  the rounding of binary floating point is not modelled. \<open>None\<close> stands for the
  \<^verbatim>\<open>StatisticsError\<close> the library raises on too few data points.
  \<^verbatim>\<open>median\<close> sorts the data and returns the middle element, or the half sum of the two
  middle elements; \<^verbatim>\<open>stdev\<close> is the square root of the sample variance (divisor \<open>n - 1\<close>).
\<close>

definition median_py :: "int list \<Rightarrow> real option" where
  "median_py data =
     (let s = sort data; n = length s in
      if n = 0 then None
      else if n mod 2 = 1 then Some (real_of_int (s ! (n div 2)))
      else Some ((real_of_int (s ! (n div 2 - 1)) + real_of_int (s ! (n div 2))) / 2))"

definition mean_real :: "real list \<Rightarrow> real" where
  "mean_real xs = sum_list xs / real (length xs)"

definition variance_py :: "real list \<Rightarrow> real" where
  "variance_py xs =
     (let m = mean_real xs in
      sum_list (map (\<lambda>x. (x - m)\<^sup>2) xs) / real (length xs - 1))"

definition stdev_py :: "real list \<Rightarrow> real option" where
  "stdev_py xs = (if length xs < 2 then None else Some (sqrt (variance_py xs)))"

definition mean_py :: "int list \<Rightarrow> real option" where
  "mean_py xs =
     (if length xs < 1 then None
      else Some (real_of_int (sum_list xs) / real (length xs)))"

section \<open>The ADC class (\<^verbatim>\<open>adc.py\<close>)\<close>

text \<open>
  One record field per attribute set in \<^verbatim>\<open>ADC.__init__\<close>, the leading underscore dropped,
  and \<open>current_signed_value\<close>, which \<^verbatim>\<open>_finish_raw_read\<close> creates. The logger is left
  out. Python's \<open>None\<close> in a numeric attribute is \<open>None\<close> of an option type; Python
  numbers that may be \<^verbatim>\<open>int\<close> or \<^verbatim>\<open>float\<close> are reals.
\<close>

record adc =
  dout_pin :: int
  zero_offset :: real
  weight_multiple :: real
  ready :: bool
  current_raw_read :: int
  current_signed_value :: "int option"
  raw_reads :: "int list"
  reads :: "int option list"
  max_stdev :: real
  reads_filtered :: "int list"
  max_number_of_stdev_from_med :: real
  read_med :: "real option"
  devs_from_med :: "real list"
  read_stdev :: real
  ratios_to_stdev :: "real list"
  measurement :: "real option"
  measurement_from_zero :: "real option"
  weight :: "real option"

definition ADC_init :: "int \<Rightarrow> adc" where
  "ADC_init pin =
     \<lparr> dout_pin = pin, zero_offset = 0, weight_multiple = 1, ready = False,
       current_raw_read = 0, current_signed_value = None, raw_reads = [], reads = [],
       max_stdev = 100, reads_filtered = [], max_number_of_stdev_from_med = 2,
       read_med = None, devs_from_med = [], read_stdev = 0, ratios_to_stdev = [],
       measurement = None, measurement_from_zero = None, weight = None \<rparr>"

text \<open>\<^verbatim>\<open>ADC.zero(offset)\<close>: the offset \<open>None\<close> raises.\<close>

definition adc_zero :: "real option \<Rightarrow> adc \<Rightarrow> error + adc" where
  "adc_zero offset a =
     (case offset of
        Some v \<Rightarrow> Inr (a\<lparr>zero_offset := v\<rparr>)
      | None \<Rightarrow> Inl (ValueError 81))"

text \<open>
  \<^verbatim>\<open>zero_from_last_measurement\<close>: the test \<^verbatim>\<open>if self.measurement\<close> is Python truthiness,
  false for \<open>None\<close> and for the number 0.
\<close>

definition zero_from_last_measurement :: "adc \<Rightarrow> error + adc" where
  "zero_from_last_measurement a =
     (if measurement a \<noteq> None \<and> measurement a \<noteq> Some 0
      then adc_zero (measurement a) a
      else Inl (ValueError 73))"

definition get_zero_offset :: "adc \<Rightarrow> real" where
  "get_zero_offset a = zero_offset a"

definition set_weight_multiple :: "real \<Rightarrow> adc \<Rightarrow> adc" where
  "set_weight_multiple wm a = a\<lparr>weight_multiple := wm\<rparr>"

definition init_raw_read :: "adc \<Rightarrow> adc" where
  "init_raw_read a = a\<lparr>ready := False, current_raw_read := 0\<rparr>"

definition init_set_of_reads :: "adc \<Rightarrow> adc" where
  "init_set_of_reads a =
     init_raw_read
       (a\<lparr>raw_reads := [], reads := [], reads_filtered := [], read_med := None,
          devs_from_med := [], read_stdev := 0, ratios_to_stdev := [],
          measurement := None, measurement_from_zero := None\<rparr>)"

definition convert_to_signed_value :: "int \<Rightarrow> int option" where
  "convert_to_signed_value raw_value =
     (if raw_value \<in> set [0x800000, 0x7FFFFF, 0xFFFFFF] then None
      else if raw_value AND 0x800000 \<noteq> 0 then Some (- ((raw_value XOR 0xFFFFFF) + 1))
      else Some raw_value)"

definition finish_raw_read :: "adc \<Rightarrow> adc" where
  "finish_raw_read a =
     (let a1 = a\<lparr>raw_reads := raw_reads a @ [current_raw_read a]\<rparr>;
          a2 = a1\<lparr>current_signed_value := convert_to_signed_value (current_raw_read a1)\<rparr>
      in a2\<lparr>reads := reads a2 @ [current_signed_value a2]\<rparr>)"

text \<open>
  Lines 191 to 205 of \<^verbatim>\<open>_calculate_measurement\<close>: the zip of the kept reads with the
  stored ratios, and the mean of what passes. Both the branch that found the deviation
  too large and the branch that computed the ratios fall through to it.
\<close>

definition filter_and_mean :: "adc \<Rightarrow> error + (bool \<times> adc)" where
  "filter_and_mean a =
     (let new_reads_filtered =
            map fst (filter (\<lambda>(read_val, ratio). ratio \<le> max_number_of_stdev_from_med a)
                       (zip (reads_filtered a) (ratios_to_stdev a)));
          a1 = a\<lparr>reads_filtered := new_reads_filtered\<rparr>
      in if reads_filtered a1 = [] then Inr (False, a1)
         else case mean_py (reads_filtered a1) of
                None \<Rightarrow> Inl (StatisticsError 201)
              | Some m \<Rightarrow>
                  let a2 = a1\<lparr>measurement := Some m\<rparr>;
                      a3 = a2\<lparr>measurement_from_zero := Some (m - zero_offset a2)\<rparr>
                  in if weight_multiple a3 = 0 then Inl (ZeroDivisionError 203)
                     else Inr (True, a3\<lparr>weight := Some ((m - zero_offset a2) / weight_multiple a3)\<rparr>))"

text \<open>
  The list comprehension of lines 162 and 163. The entries of \<open>reads\<close> are integers or
  \<open>None\<close>, so it keeps the integers.
\<close>

definition valid_reads :: "int option list \<Rightarrow> int list" where
  "valid_reads rs = map the (filter (\<lambda>r. r \<noteq> None) rs)"

text \<open>\<^verbatim>\<open>_calculate_measurement\<close>\<close>

definition calculate_measurement :: "adc \<Rightarrow> error + (bool \<times> adc)" where
  "calculate_measurement a =
     (let a1 = a\<lparr>reads_filtered := valid_reads (reads a)\<rparr>
      in if length (reads_filtered a1) = 0 then Inr (False, a1)
         else if length (reads_filtered a1) = 1
         then Inr (True, a1\<lparr>measurement := Some (real_of_int (reads_filtered a1 ! 0))\<rparr>)
         else case median_py (reads_filtered a1) of
                None \<Rightarrow> Inl (StatisticsError 172)
              | Some med \<Rightarrow>
                  (let a2 = a1\<lparr>read_med := Some med\<rparr>;
                       a3 = a2\<lparr>devs_from_med := map (\<lambda>r. abs (real_of_int r - med)) (reads_filtered a2)\<rparr>
                   in (case stdev_py (devs_from_med a3) of
                         None \<Rightarrow> Inl (StatisticsError 175)
                       | Some sd \<Rightarrow>
                           (let a4 = a3\<lparr>read_stdev := sd\<rparr>
                            in if read_stdev a4 > max_stdev a4
                               then filter_and_mean (a4\<lparr>ready := False\<rparr>)
                               else if read_stdev a4 \<noteq> 0
                               then filter_and_mean
                                      (a4\<lparr>ratios_to_stdev := map (\<lambda>dev. dev / read_stdev a4) (devs_from_med a4)\<rparr>)
                               else Inr (True, a4\<lparr>measurement := read_med a4\<rparr>)))))"

section \<open>GPIO, time and the log\<close>

text \<open>
  The calls the driver makes on the outside world are recorded in a trace, most recent
  first: \<^verbatim>\<open>GPIO.output\<close> with the level written, \<^verbatim>\<open>GPIO.input\<close> with the level it returned,
  \<^verbatim>\<open>sleep\<close> with its duration in milliseconds, and the two log lines of the controller
  that report on the protocol: the readiness line of \<^verbatim>\<open>_prepare_to_read\<close> with its
  iteration count \<^verbatim>\<open>i+1\<close>, and the warning of \<^verbatim>\<open>_pulse_sck_high\<close>. The other log lines
  are not recorded.

  What the hardware answers is a parameter: \<open>din hw t pin\<close> is the level \<^verbatim>\<open>GPIO.input(pin)\<close>
  returns when \<open>t\<close> events have happened before the call, and \<open>pulse_too_long hw t\<close>
  says whether the clock pulse started at that moment is measured, by the two
  \<^verbatim>\<open>perf_counter\<close> calls around it, as 60 microseconds or longer.
\<close>

datatype event =
    Output int bool
  | Input int int
  | Sleep nat
  | Log_ready bool nat
  | Log_pulse_too_long

type_synonym world = "event list"

record hardware =
  din :: "nat \<Rightarrow> int \<Rightarrow> int"
  pulse_too_long :: "nat \<Rightarrow> bool"

definition is_ready :: "hardware \<Rightarrow> adc \<Rightarrow> world \<Rightarrow> bool \<times> adc \<times> world" where
  "is_ready hw a w =
     (if ready a then (True, a, w)
      else let v = din hw (length w) (dout_pin a);
               a1 = a\<lparr>ready := (v = 0)\<rparr>
           in (ready a1, a1, Input (dout_pin a) v # w))"

definition shift_and_read :: "hardware \<Rightarrow> adc \<Rightarrow> world \<Rightarrow> adc \<times> world" where
  "shift_and_read hw a w =
     (let v = din hw (length w) (dout_pin a)
      in (a\<lparr>current_raw_read := push_bit 1 (current_raw_read a) OR v\<rparr>,
          Input (dout_pin a) v # w))"

section \<open>The HX711 class (\<^verbatim>\<open>hx711.py\<close>)\<close>

record hx711 =
  adcs :: "adc list"
  dout_pins :: "int list"
  sck_pin :: int
  channel_A_gain :: int
  channel_select :: string
  all_or_nothing :: bool
  single_adc :: bool

text \<open>The list \<^verbatim>\<open>[adc._is_ready() for adc in self._adcs]\<close>: every ADC is asked, in order.\<close>

fun is_ready_all :: "hardware \<Rightarrow> adc list \<Rightarrow> world \<Rightarrow> bool list \<times> adc list \<times> world" where
  "is_ready_all hw [] w = ([], [], w)"
| "is_ready_all hw (a # as) w =
     (case is_ready hw a w of (b, a1, w1) \<Rightarrow>
        (case is_ready_all hw as w1 of (bs, as1, w2) \<Rightarrow> (b # bs, a1 # as1, w2)))"

text \<open>
  The loop \<^verbatim>\<open>for i in range(20)\<close> of \<^verbatim>\<open>_prepare_to_read\<close>, over the indices still to
  run; it returns the last value of \<open>i\<close>.
\<close>

fun ready_loop :: "hardware \<Rightarrow> nat list \<Rightarrow> nat \<Rightarrow> adc list \<Rightarrow> world \<Rightarrow> nat \<times> adc list \<times> world" where
  "ready_loop hw [] i as w = (i, as, w)"
| "ready_loop hw (j # js) i as w =
     (case is_ready_all hw as w of (bs, as1, w1) \<Rightarrow>
        if list_all (\<lambda>b. b) bs then (j, as1, w1)
        else ready_loop hw js j as1 (Sleep 10 # w1))"

definition prepare_to_read :: "hardware \<Rightarrow> hx711 \<Rightarrow> world \<Rightarrow> bool \<times> hx711 \<times> world" where
  "prepare_to_read hw h w =
     (case ready_loop hw [0..<20] 0 (adcs h) (Output (sck_pin h) False # w) of
        (i, as1, w1) \<Rightarrow>
          (let rdy = list_all ready as1
           in (rdy, h\<lparr>adcs := as1\<rparr>, Log_ready rdy (i + 1) # w1)))"

definition pulse_sck_high :: "hardware \<Rightarrow> int \<Rightarrow> world \<Rightarrow> bool \<times> world" where
  "pulse_sck_high hw sck w =
     (let w1 = Output sck False # Output sck True # w
      in if pulse_too_long hw (length w) then (False, Log_pulse_too_long # w1)
         else (True, w1))"

text \<open>The loop of \<^verbatim>\<open>_write_channel_gain\<close>, which returns at the first pulse that fails.\<close>

fun pulse_times :: "hardware \<Rightarrow> int \<Rightarrow> nat \<Rightarrow> world \<Rightarrow> bool \<times> world" where
  "pulse_times hw sck 0 w = (True, w)"
| "pulse_times hw sck (Suc n) w =
     (case pulse_sck_high hw sck w of (ok, w1) \<Rightarrow>
        if \<not> ok then (False, w1) else pulse_times hw sck n w1)"

definition num_pulses :: "hx711 \<Rightarrow> nat" where
  "num_pulses h =
     (if channel_select h = ''A'' \<and> channel_A_gain h = 128 then 1
      else if channel_select h = ''A'' \<and> channel_A_gain h = 64 then 3
      else 2)"

definition write_channel_gain :: "hardware \<Rightarrow> hx711 \<Rightarrow> world \<Rightarrow> bool \<times> world" where
  "write_channel_gain hw h w = pulse_times hw (sck_pin h) (num_pulses h) w"

text \<open>\<^verbatim>\<open>for adc in self._adcs: if adc._ready: adc._shift_and_read()\<close>\<close>

fun shift_and_read_ready :: "hardware \<Rightarrow> adc list \<Rightarrow> world \<Rightarrow> adc list \<times> world" where
  "shift_and_read_ready hw [] w = ([], w)"
| "shift_and_read_ready hw (a # as) w =
     (case (if ready a then shift_and_read hw a w else (a, w)) of (a1, w1) \<Rightarrow>
        (case shift_and_read_ready hw as w1 of (as1, w2) \<Rightarrow> (a1 # as1, w2)))"

text \<open>The loop \<^verbatim>\<open>for _ in range(24)\<close> of \<^verbatim>\<open>_read\<close>, which returns at the first pulse that fails.\<close>

fun read_bits :: "hardware \<Rightarrow> int \<Rightarrow> nat \<Rightarrow> adc list \<Rightarrow> world \<Rightarrow> bool \<times> adc list \<times> world" where
  "read_bits hw sck 0 as w = (True, as, w)"
| "read_bits hw sck (Suc n) as w =
     (case pulse_sck_high hw sck w of (ok, w1) \<Rightarrow>
        if \<not> ok then (False, as, w1)
        else (case shift_and_read_ready hw as w1 of (as1, w2) \<Rightarrow> read_bits hw sck n as1 w2))"

text \<open>\<^verbatim>\<open>_read\<close>: one cycle over all the ADCs.\<close>

definition read :: "hardware \<Rightarrow> hx711 \<Rightarrow> world \<Rightarrow> bool \<times> hx711 \<times> world" where
  "read hw h w =
     (case prepare_to_read hw (h\<lparr>adcs := map init_raw_read (adcs h)\<rparr>) w of
        (rdy, h1, w1) \<Rightarrow>
          if \<not> rdy \<and> all_or_nothing h1 then (False, h1, w1)
          else (case read_bits hw (sck_pin h1) 24 (adcs h1) w1 of
                  (ok, as2, w2) \<Rightarrow>
                    if \<not> ok then (False, h1\<lparr>adcs := as2\<rparr>, w2)
                    else (let h3 = h1\<lparr>adcs := map (\<lambda>a. if ready a then finish_raw_read a else a) as2\<rparr>
                          in (case write_channel_gain hw h3 w2 of
                                (ok2, w3) \<Rightarrow> (ok2, h3, w3)))))"

text \<open>The loop \<^verbatim>\<open>for _ in range(readings_to_average): self._read()\<close>: the results are dropped.\<close>

fun read_times :: "hardware \<Rightarrow> nat \<Rightarrow> hx711 \<Rightarrow> world \<Rightarrow> hx711 \<times> world" where
  "read_times hw 0 h w = (h, w)"
| "read_times hw (Suc n) h w =
     (case read hw h w of (ok, h1, w1) \<Rightarrow> read_times hw n h1 w1)"

text \<open>\<^verbatim>\<open>for adc in self._adcs: if adc._ready: adc._calculate_measurement()\<close>\<close>

fun calculate_ready :: "adc list \<Rightarrow> error + adc list" where
  "calculate_ready [] = Inr []"
| "calculate_ready (a # as) =
     (case (if ready a then calculate_measurement a else Inr (True, a)) of
        Inl e \<Rightarrow> Inl e
      | Inr (ok, a1) \<Rightarrow>
          (case calculate_ready as of Inl e \<Rightarrow> Inl e | Inr as1 \<Rightarrow> Inr (a1 # as1)))"

text \<open>
  What \<^verbatim>\<open>read_raw\<close> returns, and what the variable \<^verbatim>\<open>readings\<close> of \<^verbatim>\<open>zero\<close> holds:
  Python's \<open>None\<close>, one number, or a list of numbers and \<open>None\<close>s.
\<close>

datatype pyval = PyNone | PyFloat real | PyList "real option list"

definition scalar :: "real option \<Rightarrow> pyval" where
  "scalar m = (case m of None \<Rightarrow> PyNone | Some x \<Rightarrow> PyFloat x)"

definition read_raw :: "hardware \<Rightarrow> int \<Rightarrow> hx711 \<Rightarrow> world \<Rightarrow> error + (pyval \<times> hx711 \<times> world)" where
  "read_raw hw readings_to_average h w =
     (if \<not> (1 \<le> readings_to_average \<and> readings_to_average \<le> 10000) then Inl (ValueError 258)
      else case read_times hw (nat readings_to_average)
                  (h\<lparr>adcs := map init_set_of_reads (adcs h)\<rparr>) w of
             (h2, w2) \<Rightarrow>
               (case calculate_ready (adcs h2) of
                  Inl e \<Rightarrow> Inl e
                | Inr as3 \<Rightarrow>
                    (let h3 = h2\<lparr>adcs := as3\<rparr>;
                         adc_measurements = map measurement_from_zero (adcs h3)
                     in if single_adc h3
                        then (case adc_measurements of
                                [] \<Rightarrow> Inl (IndexError 287)
                              | m # ms \<Rightarrow> Inr (scalar m, h3, w2))
                        else Inr (PyList adc_measurements, h3, w2))))"

text \<open>The list comprehension of lines 354 and 355 of \<^verbatim>\<open>zero\<close>.\<close>

definition merge_readings :: "real option list \<Rightarrow> real option list \<Rightarrow> real option list" where
  "merge_readings readings_new readings =
     map (\<lambda>(r_new, r_old). if r_new \<noteq> None then r_new else r_old) (zip readings_new readings)"

text \<open>
  Lines 353 to 357 of \<^verbatim>\<open>zero\<close>: the new value of \<^verbatim>\<open>readings\<close>. \<^verbatim>\<open>zip\<close> raises a
  \<^verbatim>\<open>TypeError\<close> on an argument that is not iterable.
\<close>

definition update_readings :: "pyval \<Rightarrow> pyval \<Rightarrow> error + pyval" where
  "update_readings readings_new readings =
     (if readings \<noteq> PyNone
      then (case readings_new of
              PyList ns \<Rightarrow>
                (case readings of
                   PyList rs \<Rightarrow> Inr (PyList (merge_readings ns rs))
                 | _ \<Rightarrow> Inl (TypeError 354))
            | _ \<Rightarrow> Inl (TypeError 354))
      else Inr readings_new)"

text \<open>
  The test \<^verbatim>\<open>None in readings\<close> at the given line: a \<^verbatim>\<open>TypeError\<close> when \<^verbatim>\<open>readings\<close> is
  not a list.
\<close>

definition none_in :: "pyval \<Rightarrow> nat \<Rightarrow> error + bool" where
  "none_in readings line =
     (case readings of
        PyList rs \<Rightarrow> Inr (None \<in> set rs)
      | _ \<Rightarrow> Inl (TypeError line))"

text \<open>The loop \<^verbatim>\<open>for _ in range(retry_limit)\<close> of \<^verbatim>\<open>zero\<close>, over the retries still to run.\<close>

fun zero_loop :: "hardware \<Rightarrow> int \<Rightarrow> nat \<Rightarrow> pyval \<Rightarrow> hx711 \<Rightarrow> world \<Rightarrow> error + (pyval \<times> hx711 \<times> world)" where
  "zero_loop hw readings_to_average 0 readings h w = Inr (readings, h, w)"
| "zero_loop hw readings_to_average (Suc k) readings h w =
     (case read_raw hw readings_to_average h w of
        Inl e \<Rightarrow> Inl e
      | Inr (readings_new, h1, w1) \<Rightarrow>
          (case update_readings readings_new readings of
             Inl e \<Rightarrow> Inl e
           | Inr readings1 \<Rightarrow>
               (case none_in readings1 358 of
                  Inl e \<Rightarrow> Inl e
                | Inr b \<Rightarrow>
                    if \<not> b then Inr (readings1, h1, w1)
                    else zero_loop hw readings_to_average k readings1 h1 w1)))"

text \<open>\<^verbatim>\<open>for adc in self._adcs: if adc._ready: adc.zero_from_last_measurement()\<close>\<close>

fun zero_ready :: "adc list \<Rightarrow> error + adc list" where
  "zero_ready [] = Inr []"
| "zero_ready (a # as) =
     (case (if ready a then zero_from_last_measurement a else Inr a) of
        Inl e \<Rightarrow> Inl e
      | Inr a1 \<Rightarrow>
          (case zero_ready as of Inl e \<Rightarrow> Inl e | Inr as1 \<Rightarrow> Inr (a1 # as1)))"

text \<open>\<^verbatim>\<open>HX711.zero\<close>; a negative \<^verbatim>\<open>retry_limit\<close> gives an empty range.\<close>

definition zero :: "hardware \<Rightarrow> int \<Rightarrow> int \<Rightarrow> hx711 \<Rightarrow> world \<Rightarrow> error + (hx711 \<times> world)" where
  "zero hw readings_to_average retry_limit h w =
     (case zero_loop hw readings_to_average (nat retry_limit) PyNone h w of
        Inl e \<Rightarrow> Inl e
      | Inr (readings, h1, w1) \<Rightarrow>
          (case none_in readings 360 of
             Inl e \<Rightarrow> Inl e
           | Inr b \<Rightarrow>
               if b then Inl (Exception 361)
               else (case zero_ready (adcs h1) of
                       Inl e \<Rightarrow> Inl e
                     | Inr as1 \<Rightarrow> Inr (h1\<lparr>adcs := as1\<rparr>, w1))))"

section \<open>Vocabulary of the properties\<close>

text \<open>
  The absolute deviations of the valid reads from their median, and the standard
  deviation of these deviations: the values \<^verbatim>\<open>_calculate_measurement\<close> stores in
  \<open>devs_from_med\<close> and \<open>read_stdev\<close> when there are two valid reads or more.
\<close>

definition deviations :: "int list \<Rightarrow> real list" where
  "deviations vs = map (\<lambda>r. abs (real_of_int r - the (median_py vs))) vs"

definition deviation_stdev :: "int list \<Rightarrow> real" where
  "deviation_stdev vs = sqrt (variance_py (deviations vs))"

text \<open>
  The state of an ADC during a batch, before its aggregation: the fields that
  \<^verbatim>\<open>_init_set_of_reads\<close> clears and no read cycle touches are still clear, and the two
  thresholds are those of the constructor.
\<close>

definition batch_state :: "adc \<Rightarrow> bool" where
  "batch_state a =
     (reads_filtered a = [] \<and> read_med a = None \<and> devs_from_med a = [] \<and>
      read_stdev a = 0 \<and> ratios_to_stdev a = [] \<and> measurement a = None \<and>
      measurement_from_zero a = None \<and> max_stdev a = 100 \<and>
      max_number_of_stdev_from_med a = 2)"

text \<open>
  An ADC with the fields that a read cycle writes blanked: two ADCs with the same image
  differ at most in the ready flag, the accumulator and the histories of reads. And the
  two thresholds as the constructor sets them; no method assigns them again.
\<close>

definition blank_cycle_fields :: "adc \<Rightarrow> adc" where
  "blank_cycle_fields a =
     a\<lparr>ready := False, current_raw_read := 0, current_signed_value := None,
       raw_reads := [], reads := []\<rparr>"

definition constructor_thresholds :: "adc \<Rightarrow> bool" where
  "constructor_thresholds a = (max_stdev a = 100 \<and> max_number_of_stdev_from_med a = 2)"

text \<open>
  The batches on which \<^verbatim>\<open>_calculate_measurement\<close> returns before the ratio filter: one
  valid read, or several whose deviations from the median all agree.
\<close>

definition skips_filter :: "adc \<Rightarrow> bool" where
  "skips_filter a =
     (length (valid_reads (reads a)) = 1 \<or>
      (2 \<le> length (valid_reads (reads a)) \<and> deviation_stdev (valid_reads (reads a)) = 0))"

text \<open>
  A poll of a device is a call of \<^verbatim>\<open>GPIO.input\<close> on its data pin, whatever level it
  returns: the events of the trace that read the given pin.
\<close>

definition input_on :: "int \<Rightarrow> event \<Rightarrow> bool" where
  "input_on pin e = (case e of Input p v \<Rightarrow> p = pin | _ \<Rightarrow> False)"

text \<open>
  The readiness gate of \<^verbatim>\<open>_read\<close> stops the cycle: \<open>all_or_nothing\<close> is set and
  \<^verbatim>\<open>_prepare_to_read\<close>, run after the reset of every device, returns \<open>False\<close>.
\<close>

definition gate_closed :: "hardware \<Rightarrow> hx711 \<Rightarrow> world \<Rightarrow> bool" where
  "gate_closed hw h w =
     (all_or_nothing h \<and>
      \<not> fst (prepare_to_read hw (h\<lparr>adcs := map init_raw_read (adcs h)\<rparr>) w))"

text \<open>
  A trace whose last events are a clock pulse measured as too long and its warning, the
  only such warning since the earlier trace.
\<close>

definition stopped_at_pulse :: "hardware \<Rightarrow> int \<Rightarrow> world \<Rightarrow> world \<Rightarrow> bool" where
  "stopped_at_pulse hw sck w w1 =
     (\<exists>w0. w1 = Log_pulse_too_long # Output sck False # Output sck True # w0 \<and>
           pulse_too_long hw (length w0) \<and>
           count_list w0 Log_pulse_too_long = count_list w Log_pulse_too_long \<and>
           (\<exists>evs. w0 = evs @ w))"

section \<open>Example configurations\<close>

text \<open>
  Hardware whose data lines are always high (no chip ever ready), hardware whose data
  lines are always low with pulses in time, and hardware whose every pulse is measured
  as too long; a controller with the single data pin 5 and one with the data pins 5 and
  13, both with the clock pin 6, channel A and gain 128.
\<close>

definition hw_never_ready :: hardware where
  "hw_never_ready = \<lparr>din = (\<lambda>t pin. 1), pulse_too_long = (\<lambda>t. False)\<rparr>"

definition hw_all_ready :: hardware where
  "hw_all_ready = \<lparr>din = (\<lambda>t pin. 0), pulse_too_long = (\<lambda>t. False)\<rparr>"

definition hw_slow_pulse :: hardware where
  "hw_slow_pulse = \<lparr>din = (\<lambda>t pin. 0), pulse_too_long = (\<lambda>t. True)\<rparr>"

definition hx_single :: hx711 where
  "hx_single =
     \<lparr>adcs = [ADC_init 5], dout_pins = [5], sck_pin = 6, channel_A_gain = 128,
      channel_select = ''A'', all_or_nothing = True, single_adc = True\<rparr>"

definition hx_pair :: hx711 where
  "hx_pair =
     \<lparr>adcs = [ADC_init 5, ADC_init 13], dout_pins = [5, 13], sck_pin = 6,
      channel_A_gain = 128, channel_select = ''A'', all_or_nothing = True,
      single_adc = False\<rparr>"

text \<open>An ADC after the aggregation of the batch 1, 2, 3: its weight is 2.\<close>

definition adc_after_1_2_3 :: adc where
  "adc_after_1_2_3 =
     (init_set_of_reads (ADC_init 5))
       \<lparr>reads := [Some 1, Some 2, Some 3], reads_filtered := [1, 2, 3],
        read_med := Some 2, devs_from_med := [1, 0, 1], read_stdev := sqrt (1 / 3),
        ratios_to_stdev := [1 / sqrt (1 / 3), 0, 1 / sqrt (1 / 3)],
        measurement := Some 2, measurement_from_zero := Some 2, weight := Some 2\<rparr>"

section \<open>Two's complement conversion\<close>

lemma sign_bit_test: "(v AND 0x800000 \<noteq> 0) = bit v 23" for v :: int
proof -
  have "(0x800000 :: int) = push_bit 23 1" by simp
  then show ?thesis
    by (simp only: bit_iff_and_push_bit_not_eq_0)
qed

text \<open>
  Claim C2. For every raw value \<open>v\<close>, and so for every 24-bit one,
  \<^verbatim>\<open>convert_to_signed_value\<close> returns \<open>None\<close> exactly when \<open>v\<close> is one of 0x800000,
  0x7FFFFF and 0xFFFFFF; otherwise it returns \<open>-((v XOR 0xFFFFFF) + 1)\<close> when bit 23 of
  \<open>v\<close> is set, and \<open>v\<close> when it is not.
\<close>

theorem convert_to_signed_value_law:
  "(convert_to_signed_value v = None) = (v \<in> {0x800000, 0x7FFFFF, 0xFFFFFF}) \<and>
   convert_to_signed_value v =
     (if v \<in> {0x800000, 0x7FFFFF, 0xFFFFFF} then None
      else Some (if bit v 23 then - ((v XOR 0xFFFFFF) + 1) else v))"
  by (simp add: convert_to_signed_value_def sign_bit_test)

section \<open>Aggregation: the paths of \<^verbatim>\<open>_calculate_measurement\<close>\<close>

lemma sqrt_gt_iff: "0 \<le> c \<Longrightarrow> (c < sqrt v) = (c\<^sup>2 < v)"
  by (metis real_sqrt_abs abs_of_nonneg real_sqrt_less_iff)

lemma ratio_le_iff: "0 < v \<Longrightarrow> 0 \<le> d \<Longrightarrow> 0 \<le> k \<Longrightarrow> (d / sqrt v \<le> k) = (d\<^sup>2 \<le> k\<^sup>2 * v)"
proof -
  assume v: "0 < v" and d: "0 \<le> d" and k: "0 \<le> k"
  have "(d / sqrt v \<le> k) = (d \<le> k * sqrt v)" using v by (simp add: pos_divide_le_eq)
  also have "\<dots> = (sqrt (d\<^sup>2) \<le> sqrt (k\<^sup>2 * v))" using d k v by (simp add: real_sqrt_mult)
  also have "\<dots> = (d\<^sup>2 \<le> k\<^sup>2 * v)" by (rule real_sqrt_le_iff)
  finally show ?thesis .
qed

lemma sort_Nil_iff: "(sort vs = []) = (vs = [])"
  by (metis length_sort length_0_conv)

lemma median_py_Some: "vs \<noteq> [] \<Longrightarrow> \<exists>m. median_py vs = Some m"
proof (cases "length vs mod 2 = 1")
  case True
  assume "vs \<noteq> []"
  with True have "median_py vs = Some (real_of_int (sort vs ! (length vs div 2)))"
    by (simp add: median_py_def Let_def sort_Nil_iff)
  then show ?thesis by blast
next
  case False
  assume "vs \<noteq> []"
  with False have "median_py vs =
      Some ((real_of_int (sort vs ! (length vs div 2 - 1)) + real_of_int (sort vs ! (length vs div 2))) / 2)"
    by (simp add: median_py_def Let_def sort_Nil_iff)
  then show ?thesis by blast
qed

lemma stdev_py_deviations:
  "2 \<le> length vs \<Longrightarrow> stdev_py (deviations vs) = Some (deviation_stdev vs)"
  by (simp add: stdev_py_def deviations_def deviation_stdev_def)

lemma deviations_eq:
  "median_py vs = Some m \<Longrightarrow> map (\<lambda>r. abs (real_of_int r - m)) vs = deviations vs"
  by (simp add: deviations_def)

lemma calculate_measurement_many:
  assumes "2 \<le> length (valid_reads (reads a))"
  shows "calculate_measurement a =
     (let vs = valid_reads (reads a);
          a4 = a\<lparr>reads_filtered := vs, read_med := median_py vs,
                 devs_from_med := deviations vs, read_stdev := deviation_stdev vs\<rparr>
      in if deviation_stdev vs > max_stdev a then filter_and_mean (a4\<lparr>ready := False\<rparr>)
         else if deviation_stdev vs \<noteq> 0
         then filter_and_mean
                (a4\<lparr>ratios_to_stdev := map (\<lambda>dev. dev / deviation_stdev vs) (deviations vs)\<rparr>)
         else Inr (True, a4\<lparr>measurement := median_py vs\<rparr>))"
proof -
  let ?vs = "valid_reads (reads a)"
  have ne: "?vs \<noteq> []" using assms by auto
  obtain m where m: "median_py ?vs = Some m" using median_py_Some [OF ne] by blast
  have l0: "length ?vs \<noteq> 0" and l1: "length ?vs \<noteq> 1" using assms by auto
  show ?thesis
    unfolding calculate_measurement_def Let_def
    using l0 l1 by (simp add: m stdev_py_deviations [OF assms] deviations_eq [OF m])
qed

lemma calculate_measurement_one:
  assumes "valid_reads (reads a) = [v]"
  shows "calculate_measurement a =
           Inr (True, a\<lparr>reads_filtered := [v], measurement := Some (real_of_int v)\<rparr>)"
  using assms by (simp add: calculate_measurement_def)

lemma calculate_measurement_none:
  assumes "valid_reads (reads a) = []"
  shows "calculate_measurement a = Inr (False, a\<lparr>reads_filtered := []\<rparr>)"
  using assms by (simp add: calculate_measurement_def)

lemma filter_and_mean_no_ratios:
  "ratios_to_stdev a = [] \<Longrightarrow> filter_and_mean a = Inr (False, a\<lparr>reads_filtered := []\<rparr>)"
  by (simp add: filter_and_mean_def)

text \<open>Evaluation of the statistics on explicit batches.\<close>

lemmas stat_eval = median_py_def variance_py_def mean_real_def deviations_def deviation_stdev_def
  valid_reads_def

lemma batch_state_fixture:
  "batch_state ((init_set_of_reads (ADC_init p))\<lparr>reads := rs\<rparr>)"
  by (simp add: batch_state_def init_set_of_reads_def init_raw_read_def ADC_init_def)

section \<open>The per-batch reset\<close>

text \<open>
  Claim C8, as the code has it. For every device state, \<^verbatim>\<open>_init_set_of_reads\<close> empties
  the batch history (\<open>raw_reads\<close>, \<open>reads\<close>, \<open>reads_filtered\<close> and the statistics)
  and sets \<open>measurement\<close> and \<open>measurement_from_zero\<close> to \<open>None\<close>, then resets the
  ready flag and the accumulator. Of the three measurement fields it leaves \<open>weight\<close>
  as it is: the assignment that would clear it is commented out at line 101.
  \<open>zero_offset\<close> and \<open>weight_multiple\<close> keep their values.
\<close>

theorem init_set_of_reads_frame:
  "init_set_of_reads a =
     a\<lparr>raw_reads := [], reads := [], reads_filtered := [], read_med := None,
       devs_from_med := [], read_stdev := 0, ratios_to_stdev := [],
       measurement := None, measurement_from_zero := None,
       ready := False, current_raw_read := 0\<rparr> \<and>
   zero_offset (init_set_of_reads a) = zero_offset a \<and>
   weight_multiple (init_set_of_reads a) = weight_multiple a \<and>
   weight (init_set_of_reads a) = weight a"
  by (simp add: init_set_of_reads_def init_raw_read_def)

text \<open>
  An ADC whose batch 1, 2, 3 gave the measurement 2 and the weight 2: the reset for the
  next batch clears \<open>measurement\<close> and \<open>measurement_from_zero\<close>, and the weight is
  still 2, not \<open>None\<close>.
\<close>

theorem init_set_of_reads_keeps_weight:
  "calculate_measurement ((init_set_of_reads (ADC_init 5))\<lparr>reads := [Some 1, Some 2, Some 3]\<rparr>) =
     Inr (True, adc_after_1_2_3) \<and>
   measurement adc_after_1_2_3 = Some 2 \<and>
   measurement_from_zero adc_after_1_2_3 = Some 2 \<and>
   weight adc_after_1_2_3 = Some 2 \<and>
   measurement (init_set_of_reads adc_after_1_2_3) = None \<and>
   measurement_from_zero (init_set_of_reads adc_after_1_2_3) = None \<and>
   weight (init_set_of_reads adc_after_1_2_3) = Some 2 \<and>
   weight (init_set_of_reads adc_after_1_2_3) \<noteq> None"
  by (simp add: adc_after_1_2_3_def calculate_measurement_def filter_and_mean_def stdev_py_def
      mean_py_def stat_eval init_set_of_reads_def init_raw_read_def ADC_init_def
      sqrt_gt_iff ratio_le_iff power2_eq_square)

section \<open>Aggregation of an unreliable batch\<close>

text \<open>
  Claim C6. For a batch with two valid reads or more whose deviations from the median
  have a standard deviation above 100, aggregation clears the ready flag, keeps no read,
  returns \<open>False\<close> and leaves \<open>measurement\<close> at \<open>None\<close>.
\<close>

theorem large_spread_fails:
  assumes "batch_state a"
      and "2 \<le> length (valid_reads (reads a))"
      and "100 < deviation_stdev (valid_reads (reads a))"
  shows "\<exists>a1. calculate_measurement a = Inr (False, a1) \<and>
              a1 = a\<lparr>reads_filtered := [],
                     read_med := median_py (valid_reads (reads a)),
                     devs_from_med := deviations (valid_reads (reads a)),
                     read_stdev := deviation_stdev (valid_reads (reads a)),
                     ready := False\<rparr> \<and>
              \<not> ready a1 \<and> measurement a1 = None \<and> measurement_from_zero a1 = None"
  using assms(1,3)
  by (simp add: calculate_measurement_many [OF assms(2)] batch_state_def
      filter_and_mean_no_ratios Let_def)

theorem large_spread_fails_witness:
  "batch_state ((init_set_of_reads (ADC_init 5))\<lparr>reads := [Some 0, Some 0, None, Some 3000]\<rparr>) \<and>
   valid_reads [Some 0, Some 0, None, Some 3000] = [0, 0, 3000] \<and>
   deviation_stdev [0, 0, 3000] = sqrt 3000000 \<and>
   100 < sqrt (3000000 :: real) \<and>
   calculate_measurement ((init_set_of_reads (ADC_init 5))\<lparr>reads := [Some 0, Some 0, None, Some 3000]\<rparr>) =
     Inr (False, (init_set_of_reads (ADC_init 5))
                   \<lparr>reads := [Some 0, Some 0, None, Some 3000], reads_filtered := [],
                    read_med := Some 0, devs_from_med := [0, 0, 3000],
                    read_stdev := sqrt 3000000, ready := False\<rparr>)"
proof -
  let ?a = "(init_set_of_reads (ADC_init 5))\<lparr>reads := [Some 0, Some 0, None, Some 3000]\<rparr>"
  have v: "valid_reads [Some 0, Some 0, None, Some 3000] = [0, 0, 3000]" by (simp add: valid_reads_def)
  have d: "deviation_stdev [0, 0, 3000] = sqrt 3000000" by (simp add: stat_eval)
  have g: "100 < sqrt (3000000 :: real)" by (simp add: sqrt_gt_iff)
  have m: "median_py [0, 0, 3000] = Some 0" by (simp add: stat_eval)
  have ds: "deviations [0, 0, 3000] = [0, 0, 3000]" by (simp add: stat_eval)
  show ?thesis
    using large_spread_fails [of ?a] batch_state_fixture [where p = 5 and rs = "[Some 0, Some 0, None, Some 3000]"]
    by (simp add: v d g m ds)
qed

section \<open>The batch 10, 12, 1000\<close>

text \<open>
  Claim C1, as the code has it. The median of 10, 12 and 1000 is 12, the deviations are
  2, 0 and 988, and their standard deviation is the square root of 324724, about 569.8,
  which is above the ceiling 100: aggregation takes the unreliable-batch branch, clears
  the ready flag, keeps no read and returns \<open>False\<close> with no measurement. The ratio
  filter is not computed for this batch.
\<close>

theorem batch_10_12_1000_fails:
  assumes "batch_state a" and "reads a = [Some 10, Some 12, Some 1000]"
  shows "\<exists>a1. calculate_measurement a = Inr (False, a1) \<and>
              a1 = a\<lparr>reads_filtered := [], read_med := Some 12,
                     devs_from_med := [2, 0, 988], read_stdev := sqrt 324724,
                     ready := False\<rparr> \<and>
              max_stdev a1 < read_stdev a1 \<and> ratios_to_stdev a1 = [] \<and>
              \<not> ready a1 \<and> measurement a1 = None"
proof -
  have v: "valid_reads (reads a) = [10, 12, 1000]" using assms(2) by (simp add: valid_reads_def)
  have m: "median_py [10, 12, 1000] = Some 12" by (simp add: stat_eval)
  have ds: "deviations [10, 12, 1000] = [2, 0, 988]" by (simp add: stat_eval)
  have d: "deviation_stdev [10, 12, 1000] = sqrt 324724" by (simp add: stat_eval)
  have g: "100 < sqrt (324724 :: real)" by (simp add: sqrt_gt_iff)
  have l: "2 \<le> length (valid_reads (reads a))" by (simp add: v)
  show ?thesis
    using assms(1) g
    by (simp add: calculate_measurement_many [OF l] v m ds d batch_state_def
        filter_and_mean_no_ratios Let_def)
qed

theorem batch_10_12_1000_fails_witness:
  "batch_state ((init_set_of_reads ((ADC_init 6)\<lparr>zero_offset := 3\<rparr>))\<lparr>reads := [Some 10, Some 12, Some 1000]\<rparr>) \<and>
   calculate_measurement ((init_set_of_reads ((ADC_init 6)\<lparr>zero_offset := 3\<rparr>))\<lparr>reads := [Some 10, Some 12, Some 1000]\<rparr>) =
     Inr (False, (init_set_of_reads ((ADC_init 6)\<lparr>zero_offset := 3\<rparr>))
                   \<lparr>reads := [Some 10, Some 12, Some 1000], reads_filtered := [],
                    read_med := Some 12, devs_from_med := [2, 0, 988],
                    read_stdev := sqrt 324724, ready := False\<rparr>)"
proof -
  let ?a = "(init_set_of_reads ((ADC_init 6)\<lparr>zero_offset := 3\<rparr>))\<lparr>reads := [Some 10, Some 12, Some 1000]\<rparr>"
  have b: "batch_state ?a"
    by (simp add: batch_state_def init_set_of_reads_def init_raw_read_def ADC_init_def)
  show ?thesis
    using batch_10_12_1000_fails [of ?a] b by simp
qed

text \<open>
  The batch of the claim on a freshly constructed ADC: aggregation returns \<open>False\<close> and
  the measurement is \<open>None\<close>, not 11.
\<close>

theorem batch_10_12_1000_counterexample:
  "calculate_measurement ((init_set_of_reads (ADC_init 5))\<lparr>reads := [Some 10, Some 12, Some 1000]\<rparr>) =
     Inr (False, (init_set_of_reads (ADC_init 5))
                   \<lparr>reads := [Some 10, Some 12, Some 1000], reads_filtered := [],
                    read_med := Some 12, devs_from_med := [2, 0, 988],
                    read_stdev := sqrt 324724, ready := False\<rparr>) \<and>
   measurement ((init_set_of_reads (ADC_init 5))
                   \<lparr>reads := [Some 10, Some 12, Some 1000], reads_filtered := [],
                    read_med := Some 12, devs_from_med := [2, 0, 988],
                    read_stdev := sqrt 324724, ready := False\<rparr>) = None"
  by (simp add: calculate_measurement_def filter_and_mean_def stdev_py_def stat_eval
      init_set_of_reads_def init_raw_read_def ADC_init_def sqrt_gt_iff)

section \<open>The merge of the retries in \<^verbatim>\<open>zero\<close>\<close>

text \<open>A retry of \<^verbatim>\<open>zero\<close> on several devices: the new batch is merged into the kept readings.\<close>

lemma zero_loop_merges:
  "read_raw hw n h w = Inr (PyList ns, h1, w1) \<Longrightarrow>
     zero_loop hw n (Suc k) (PyList rs) h w =
       (if None \<in> set (merge_readings ns rs)
        then zero_loop hw n k (PyList (merge_readings ns rs)) h1 w1
        else Inr (PyList (merge_readings ns rs), h1, w1))"
  by (simp add: update_readings_def none_in_def)

lemma zero_loop_first:
  "read_raw hw n h w = Inr (PyList rs, h1, w1) \<Longrightarrow>
     zero_loop hw n (Suc k) PyNone h w =
       (if None \<in> set rs then zero_loop hw n k (PyList rs) h1 w1
        else Inr (PyList rs, h1, w1))"
  by (simp add: update_readings_def none_in_def)

lemma calculate_ready_idle:
  "list_all (\<lambda>a. \<not> ready a) as \<Longrightarrow> calculate_ready as = Inr as"
  by (induction as) simp_all

text \<open>
  Claim C5. In \<^verbatim>\<open>zero\<close> on several devices, when the first batch still holds a \<open>None\<close>
  the loop runs \<^verbatim>\<open>read_raw\<close> again and keeps the merge of the new batch into the first
  one; every later retry does the same with the readings kept so far. The merge holds,
  at every position, the new result when it is present and the kept one when the new
  result is \<open>None\<close>: a later \<open>None\<close> never overwrites an earlier value, and a later
  value fills an earlier \<open>None\<close>. The loop stops as soon as the merge holds no \<open>None\<close>,
  and with a \<^verbatim>\<open>retry_limit\<close> of 2 \<^verbatim>\<open>zero\<close> raises when the merge of the two batches
  still holds one. The batch 3, \<open>None\<close> after the batch \<open>None\<close>, 5 gives 3, 5.
\<close>

theorem zero_merge_fills_gaps_only:
  assumes "read_raw hw n h w = Inr (PyList rs, h1, w1)" and "None \<in> set rs"
      and "read_raw hw n h1 w1 = Inr (PyList ns, h2, w2)"
  shows "zero_loop hw n (Suc (Suc k)) PyNone h w =
           (if None \<in> set (merge_readings ns rs)
            then zero_loop hw n k (PyList (merge_readings ns rs)) h2 w2
            else Inr (PyList (merge_readings ns rs), h2, w2)) \<and>
         zero_loop hw n (Suc k) (PyList qs) h1 w1 =
           (if None \<in> set (merge_readings ns qs)
            then zero_loop hw n k (PyList (merge_readings ns qs)) h2 w2
            else Inr (PyList (merge_readings ns qs), h2, w2)) \<and>
         zero hw n 2 h w =
           (if None \<in> set (merge_readings ns rs) then Inl (Exception 361)
            else case zero_ready (adcs h2) of
                   Inl e \<Rightarrow> Inl e
                 | Inr as1 \<Rightarrow> Inr (h2\<lparr>adcs := as1\<rparr>, w2)) \<and>
         update_readings (PyList ns) (PyList rs) = Inr (PyList (merge_readings ns rs)) \<and>
         length (merge_readings ns rs) = min (length ns) (length rs) \<and>
         (\<forall>i. i < length ns \<longrightarrow> i < length rs \<longrightarrow>
              merge_readings ns rs ! i = (if ns ! i = None then rs ! i else ns ! i)) \<and>
         merge_readings [Some 3, None] [None, Some 5] = [Some 3, Some 5]"
proof -
  have 1: "zero_loop hw n (Suc (Suc k)) PyNone h w =
           (if None \<in> set (merge_readings ns rs)
            then zero_loop hw n k (PyList (merge_readings ns rs)) h2 w2
            else Inr (PyList (merge_readings ns rs), h2, w2))" for k
    using assms(2) by (simp only: zero_loop_first [OF assms(1)] zero_loop_merges [OF assms(3)] if_True)
  have 2: "zero_loop hw n (Suc k) (PyList qs) h1 w1 =
           (if None \<in> set (merge_readings ns qs)
            then zero_loop hw n k (PyList (merge_readings ns qs)) h2 w2
            else Inr (PyList (merge_readings ns qs), h2, w2))"
    by (rule zero_loop_merges [OF assms(3)])
  have n2: "nat (2::int) = Suc (Suc 0)" by simp
  have 3: "zero hw n 2 h w =
           (if None \<in> set (merge_readings ns rs) then Inl (Exception 361)
            else case zero_ready (adcs h2) of
                   Inl e \<Rightarrow> Inl e
                 | Inr as1 \<Rightarrow> Inr (h2\<lparr>adcs := as1\<rparr>, w2))"
    unfolding zero_def n2 1 by (simp add: none_in_def)
  have 4: "update_readings (PyList ns) (PyList rs) = Inr (PyList (merge_readings ns rs)) \<and>
         length (merge_readings ns rs) = min (length ns) (length rs) \<and>
         (\<forall>i. i < length ns \<longrightarrow> i < length rs \<longrightarrow>
              merge_readings ns rs ! i = (if ns ! i = None then rs ! i else ns ! i)) \<and>
         merge_readings [Some 3, None] [None, Some 5] = [Some 3, Some 5]"
    by (simp add: update_readings_def merge_readings_def)
  from 1 2 3 4 show ?thesis by blast
qed

theorem zero_merge_fills_gaps_only_witness:
  "(\<exists>h1 w1 h2 w2.
      read_raw hw_never_ready 3 hx_pair [] = Inr (PyList [None, None], h1, w1) \<and>
      None \<in> set [None, None :: real option] \<and>
      read_raw hw_never_ready 3 h1 w1 = Inr (PyList [None, None], h2, w2)) \<and>
   zero hw_never_ready 3 2 hx_pair [] = Inl (Exception 361) \<and>
   update_readings (PyList [None, Some 7]) (PyList [Some 4, Some 5]) = Inr (PyList [Some 4, Some 7]) \<and>
   merge_readings [None, Some 7] [Some 4, Some 5] ! 0 = Some 4 \<and>
   merge_readings [None, Some 7] [Some 4, Some 5] ! 1 = Some 7"
proof -
  let ?rt = "read_times hw_never_ready 3 (hx_pair\<lparr>adcs := map init_set_of_reads (adcs hx_pair)\<rparr>) []"
  let ?h1 = "fst ?rt" and ?w1 = "snd ?rt"
  let ?rt2 = "read_times hw_never_ready 3 (?h1\<lparr>adcs := map init_set_of_reads (adcs ?h1)\<rparr>) ?w1"
  let ?h2 = "fst ?rt2" and ?w2 = "snd ?rt2"
  have i1: "list_all (\<lambda>a. \<not> ready a) (adcs ?h1)" by code_simp
  have m1: "map measurement_from_zero (adcs ?h1) = [None, None]" by code_simp
  have s1: "single_adc ?h1 = False" by code_simp
  have i2: "list_all (\<lambda>a. \<not> ready a) (adcs ?h2)" by code_simp
  have m2: "map measurement_from_zero (adcs ?h2) = [None, None]" by code_simp
  have s2: "single_adc ?h2 = False" by code_simp
  have r1: "read_raw hw_never_ready 3 hx_pair [] = Inr (PyList [None, None], ?h1, ?w1)"
    unfolding read_raw_def
    by (simp add: case_prod_beta calculate_ready_idle [OF i1] m1 s1)
  have r2: "read_raw hw_never_ready 3 ?h1 ?w1 = Inr (PyList [None, None], ?h2, ?w2)"
    unfolding read_raw_def
    by (simp add: case_prod_beta calculate_ready_idle [OF i2] m2 s2)
  have n: "None \<in> set [None, None :: real option]" by simp
  have z: "zero hw_never_ready 3 2 hx_pair [] = Inl (Exception 361)"
    using zero_merge_fills_gaps_only [OF r1 n r2] by (simp add: merge_readings_def)
  have m: "update_readings (PyList [None, Some 7]) (PyList [Some 4, Some 5]) = Inr (PyList [Some 4, Some 7]) \<and>
     merge_readings [None, Some 7] [Some 4, Some 5] ! 0 = Some 4 \<and>
     merge_readings [None, Some 7] [Some 4, Some 5] ! 1 = Some 7"
    by (simp add: update_readings_def merge_readings_def)
  from r1 r2 n z m show ?thesis by blast
qed

section \<open>Clock pulses of a read cycle\<close>

text \<open>
  A pulse is the event \<open>Output sck True\<close>; only \<^verbatim>\<open>_pulse_sck_high\<close> issues it. Every
  operation extends the trace it is given, so the events of a cycle are those in front
  of the earlier trace.
\<close>

lemma is_ready_eq:
  "is_ready hw a w =
     (ready a \<or> din hw (length w) (dout_pin a) = 0,
      a\<lparr>ready := ready a \<or> din hw (length w) (dout_pin a) = 0\<rparr>,
      if ready a then w else Input (dout_pin a) (din hw (length w) (dout_pin a)) # w)"
  by (cases a) (simp add: is_ready_def Let_def)

lemma pulse_sck_high_count:
  "pulse_sck_high hw sck w = (ok, w1) \<Longrightarrow>
     count_list w1 (Output sck True) = count_list w (Output sck True) + 1"
  by (auto simp: pulse_sck_high_def Let_def split: if_splits)

lemma pulse_times_count:
  "pulse_times hw sck n w = (ok, w1) \<Longrightarrow>
     count_list w1 (Output sck True) \<le> count_list w (Output sck True) + n \<and>
     (ok \<longrightarrow> count_list w1 (Output sck True) = count_list w (Output sck True) + n)"
proof (induction n arbitrary: w)
  case 0
  then show ?case by simp
next
  case (Suc n)
  obtain ok0 w0 where p: "pulse_sck_high hw sck w = (ok0, w0)" by fastforce
  note c = pulse_sck_high_count [OF p]
  show ?case
  proof (cases ok0)
    case True
    with Suc.prems p have "pulse_times hw sck n w0 = (ok, w1)" by simp
    from Suc.IH [OF this] c show ?thesis by simp
  next
    case False
    with Suc.prems p have "ok = False" "w1 = w0" by simp_all
    with c show ?thesis by simp
  qed
qed

lemma is_ready_count:
  "is_ready hw a w = (b, a1, w1) \<Longrightarrow> \<forall>p v. e \<noteq> Input p v \<Longrightarrow> count_list w1 e = count_list w e"
  by (auto simp: is_ready_def Let_def split: if_splits)

lemma is_ready_all_count:
  "is_ready_all hw as w = (bs, as1, w1) \<Longrightarrow> \<forall>p v. e \<noteq> Input p v \<Longrightarrow> count_list w1 e = count_list w e"
proof (induction as arbitrary: w bs as1 w1)
  case Nil
  then show ?case by simp
next
  case (Cons a as)
  obtain b a' w' where r: "is_ready hw a w = (b, a', w')" by (metis prod_cases3)
  obtain bs' as' w'' where rs: "is_ready_all hw as w' = (bs', as', w'')" by (metis prod_cases3)
  from Cons.prems(1) r rs have "w1 = w''" by simp
  with Cons.IH [OF rs Cons.prems(2)] is_ready_count [OF r Cons.prems(2)] show ?case by simp
qed

lemma shift_and_read_ready_count:
  "shift_and_read_ready hw as w = (as1, w1) \<Longrightarrow> \<forall>p v. e \<noteq> Input p v \<Longrightarrow> count_list w1 e = count_list w e"
proof (induction as arbitrary: w as1 w1)
  case Nil
  then show ?case by simp
next
  case (Cons a as)
  obtain a' w' where r: "(if ready a then shift_and_read hw a w else (a, w)) = (a', w')" by fastforce
  obtain as' w'' where rs: "shift_and_read_ready hw as w' = (as', w'')" by fastforce
  from Cons.prems(1) r rs have w1: "w1 = w''" by simp
  from r Cons.prems(2) have "count_list w' e = count_list w e"
    by (auto simp: shift_and_read_def Let_def split: if_splits)
  with Cons.IH [OF rs Cons.prems(2)] w1 show ?case by simp
qed

lemma ready_loop_count:
  "ready_loop hw js i as w = (i1, as1, w1) \<Longrightarrow> \<forall>p v. e \<noteq> Input p v \<Longrightarrow> e \<noteq> Sleep 10 \<Longrightarrow>
     count_list w1 e = count_list w e"
proof (induction js arbitrary: i as w)
  case Nil
  then show ?case by simp
next
  case (Cons j js)
  obtain bs as' w' where r: "is_ready_all hw as w = (bs, as', w')" by (metis prod_cases3)
  note c = is_ready_all_count [OF r Cons.prems(2)]
  show ?case
  proof (cases "list_all (\<lambda>b. b) bs")
    case True
    with Cons.prems(1) r have "w1 = w'" by simp
    with c show ?thesis by simp
  next
    case False
    with Cons.prems(1) r have "ready_loop hw js j as' (Sleep 10 # w') = (i1, as1, w1)" by simp
    from Cons.IH [OF this Cons.prems(2,3)] c Cons.prems(3) show ?thesis by simp
  qed
qed

lemma prepare_to_read_count:
  "prepare_to_read hw h w = (rdy, h1, w1) \<Longrightarrow>
     count_list w1 (Output sck True) = count_list w (Output sck True)"
proof -
  assume a: "prepare_to_read hw h w = (rdy, h1, w1)"
  obtain i as' w' where r: "ready_loop hw [0..<20] 0 (adcs h) (Output (sck_pin h) False # w) = (i, as', w')"
    by (metis prod_cases3)
  from a r have "w1 = Log_ready (list_all ready as') (i + 1) # w'"
    by (auto simp: prepare_to_read_def Let_def)
  moreover from ready_loop_count [OF r, of "Output sck True"]
  have "count_list w' (Output sck True) = count_list w (Output sck True)" by simp
  ultimately show ?thesis by simp
qed

lemma prepare_to_read_frame:
  "prepare_to_read hw h w = (rdy, h1, w1) \<Longrightarrow> \<exists>as. h1 = h\<lparr>adcs := as\<rparr>"
  by (auto simp: prepare_to_read_def Let_def split: prod.splits)

lemma read_bits_count:
  "read_bits hw sck n as w = (ok, as1, w1) \<Longrightarrow>
     count_list w1 (Output sck True) \<le> count_list w (Output sck True) + n \<and>
     (ok \<longrightarrow> count_list w1 (Output sck True) = count_list w (Output sck True) + n)"
proof (induction n arbitrary: as w)
  case 0
  then show ?case by simp
next
  case (Suc n)
  obtain ok0 w0 where p: "pulse_sck_high hw sck w = (ok0, w0)" by fastforce
  note c = pulse_sck_high_count [OF p]
  show ?case
  proof (cases ok0)
    case True
    obtain as' w' where s: "shift_and_read_ready hw as w0 = (as', w')" by fastforce
    from shift_and_read_ready_count [OF s, of "Output sck True"]
    have c': "count_list w' (Output sck True) = count_list w0 (Output sck True)" by simp
    from True Suc.prems p s have "read_bits hw sck n as' w' = (ok, as1, w1)" by simp
    from Suc.IH [OF this] c c' show ?thesis by simp
  next
    case False
    with Suc.prems p have "ok = False" "w1 = w0" by simp_all
    with c show ?thesis by simp
  qed
qed

lemma is_ready_all_extends:
  "is_ready_all hw as w = (bs, as1, w1) \<Longrightarrow> \<exists>evs. w1 = evs @ w"
proof (induction as arbitrary: w bs as1 w1)
  case Nil
  then show ?case by simp
next
  case (Cons a as)
  obtain bs' as' w'' where rs:
    "is_ready_all hw as (if ready a then w else Input (dout_pin a) (din hw (length w) (dout_pin a)) # w) = (bs', as', w'')"
    by (metis prod_cases3)
  from Cons.prems rs have "w1 = w''" by (auto simp: is_ready_eq)
  with Cons.IH [OF rs] show ?case by (auto split: if_splits)
qed

lemma ready_loop_extends:
  "ready_loop hw js i as w = (i1, as1, w1) \<Longrightarrow> \<exists>evs. w1 = evs @ w"
proof (induction js arbitrary: i as w)
  case Nil
  then show ?case by simp
next
  case (Cons j js)
  obtain bs as' w' where r: "is_ready_all hw as w = (bs, as', w')" by (metis prod_cases3)
  from is_ready_all_extends [OF r] obtain evs where e: "w' = evs @ w" by blast
  show ?case
  proof (cases "list_all (\<lambda>b. b) bs")
    case True
    with Cons.prems r e show ?thesis by auto
  next
    case False
    with Cons.prems r have "ready_loop hw js j as' (Sleep 10 # w') = (i1, as1, w1)" by simp
    from Cons.IH [OF this] e show ?thesis by auto
  qed
qed

lemma prepare_to_read_extends:
  "prepare_to_read hw h w = (rdy, h1, w1) \<Longrightarrow> \<exists>evs. w1 = evs @ w"
proof -
  assume a: "prepare_to_read hw h w = (rdy, h1, w1)"
  obtain i as' w' where r: "ready_loop hw [0..<20] 0 (adcs h) (Output (sck_pin h) False # w) = (i, as', w')"
    by (metis prod_cases3)
  from a r have "w1 = Log_ready (list_all ready as') (i + 1) # w'"
    by (auto simp: prepare_to_read_def Let_def)
  with ready_loop_extends [OF r] show ?thesis by auto
qed

lemma pulse_sck_high_extends:
  "pulse_sck_high hw sck w = (ok, w1) \<Longrightarrow> \<exists>evs. w1 = evs @ w"
  by (auto simp: pulse_sck_high_def Let_def split: if_splits)

lemma pulse_times_extends:
  "pulse_times hw sck n w = (ok, w1) \<Longrightarrow> \<exists>evs. w1 = evs @ w"
proof (induction n arbitrary: w)
  case 0
  then show ?case by simp
next
  case (Suc n)
  obtain ok0 w0 where p: "pulse_sck_high hw sck w = (ok0, w0)" by fastforce
  from pulse_sck_high_extends [OF p] obtain evs where e: "w0 = evs @ w" by blast
  show ?case
  proof (cases ok0)
    case True
    with Suc.prems p have "pulse_times hw sck n w0 = (ok, w1)" by simp
    from Suc.IH [OF this] e show ?thesis by auto
  next
    case False
    with Suc.prems p e show ?thesis by auto
  qed
qed

lemma shift_and_read_ready_extends:
  "shift_and_read_ready hw as w = (as1, w1) \<Longrightarrow> \<exists>evs. w1 = evs @ w"
proof (induction as arbitrary: w as1 w1)
  case Nil
  then show ?case by simp
next
  case (Cons a as)
  obtain a' w' where r: "(if ready a then shift_and_read hw a w else (a, w)) = (a', w')" by fastforce
  obtain as' w'' where rs: "shift_and_read_ready hw as w' = (as', w'')" by fastforce
  from r have "\<exists>evs. w' = evs @ w"
    by (auto simp: shift_and_read_def Let_def split: if_splits)
  moreover from Cons.prems r rs have "w1 = w''" by simp
  ultimately show ?case using Cons.IH [OF rs] by auto
qed

lemma read_bits_extends:
  "read_bits hw sck n as w = (ok, as1, w1) \<Longrightarrow> \<exists>evs. w1 = evs @ w"
proof (induction n arbitrary: as w)
  case 0
  then show ?case by simp
next
  case (Suc n)
  obtain ok0 w0 where p: "pulse_sck_high hw sck w = (ok0, w0)" by fastforce
  from pulse_sck_high_extends [OF p] obtain evs where e: "w0 = evs @ w" by blast
  show ?case
  proof (cases ok0)
    case True
    obtain as' w' where s: "shift_and_read_ready hw as w0 = (as', w')" by fastforce
    from True Suc.prems p s have "read_bits hw sck n as' w' = (ok, as1, w1)" by simp
    from Suc.IH [OF this] shift_and_read_ready_extends [OF s] e show ?thesis by auto
  next
    case False
    with Suc.prems p e show ?thesis by auto
  qed
qed

lemma read_extends:
  assumes "read hw h w = (ok, h1, w1)"
  shows "\<exists>evs. w1 = evs @ w"
proof -
  let ?h0 = "h\<lparr>adcs := map init_raw_read (adcs h)\<rparr>"
  obtain rdy h' w' where p: "prepare_to_read hw ?h0 w = (rdy, h', w')" by (metis prod_cases3)
  from prepare_to_read_extends [OF p] obtain e0 where e0: "w' = e0 @ w" by blast
  show ?thesis
  proof (cases "\<not> rdy \<and> all_or_nothing h'")
    case True
    with assms have "w1 = w'" by (simp add: read_def p)
    with e0 show ?thesis by simp
  next
    case False
    then have nf: "(\<not> rdy \<and> all_or_nothing h') = False" by simp
    obtain ok2 as2 w2 where b: "read_bits hw (sck_pin h') 24 (adcs h') w' = (ok2, as2, w2)"
      by (metis prod_cases3)
    from read_bits_extends [OF b] obtain e1 where e1: "w2 = e1 @ w'" by blast
    show ?thesis
    proof (cases ok2)
      case f2: False
      with assms have "w1 = w2" by (simp add: read_def p nf b)
      with e0 e1 show ?thesis by simp
    next
      case t2: True
      let ?h3 = "h'\<lparr>adcs := map (\<lambda>a. if ready a then finish_raw_read a else a) as2\<rparr>"
      obtain ok3 w3 where g: "pulse_times hw (sck_pin h') (num_pulses ?h3) w2 = (ok3, w3)" by fastforce
      from pulse_times_extends [OF g] obtain e2 where e2: "w3 = e2 @ w2" by blast
      from t2 assms have "w1 = w3"
        by (simp add: read_def write_channel_gain_def Let_def p nf b g)
      with e0 e1 e2 show ?thesis by simp
    qed
  qed
qed

lemma read_pulses_relative:
  assumes "read hw h w = (ok, h1, w1)"
  shows "count_list w1 (Output (sck_pin h) True) \<le> count_list w (Output (sck_pin h) True) + 24 + num_pulses h \<and>
         (ok \<longrightarrow> count_list w1 (Output (sck_pin h) True) = count_list w (Output (sck_pin h) True) + 24 + num_pulses h)"
proof -
  let ?h0 = "h\<lparr>adcs := map init_raw_read (adcs h)\<rparr>"
  let ?P = "Output (sck_pin h) True"
  obtain rdy h' w' where p: "prepare_to_read hw ?h0 w = (rdy, h', w')" by (metis prod_cases3)
  have c0: "count_list w' ?P = count_list w ?P" by (rule prepare_to_read_count [OF p])
  obtain as' where f: "h' = h\<lparr>adcs := as'\<rparr>"
    using prepare_to_read_frame [OF p] by auto
  have sck: "sck_pin h' = sck_pin h" by (simp add: f)
  show ?thesis
  proof (cases "\<not> rdy \<and> all_or_nothing h'")
    case True
    with assms have "ok = False" "w1 = w'" by (simp_all add: read_def p)
    with c0 show ?thesis by simp
  next
    case False
    then have nf: "(\<not> rdy \<and> all_or_nothing h') = False" by simp
    obtain ok2 as2 w2 where b: "read_bits hw (sck_pin h) 24 (adcs h') w' = (ok2, as2, w2)"
      by (metis prod_cases3)
    note c1 = read_bits_count [OF b]
    show ?thesis
    proof (cases ok2)
      case f2: False
      with assms have "ok = False" "w1 = w2" by (simp_all add: read_def p nf sck b)
      with c0 c1 show ?thesis by simp
    next
      case t2: True
      let ?h3 = "h'\<lparr>adcs := map (\<lambda>a. if ready a then finish_raw_read a else a) as2\<rparr>"
      have s3: "sck_pin ?h3 = sck_pin h" using sck by simp
      have n3: "num_pulses ?h3 = num_pulses h" by (simp add: f num_pulses_def)
      obtain ok3 w3 where g: "pulse_times hw (sck_pin h) (num_pulses h) w2 = (ok3, w3)" by fastforce
      note c2 = pulse_times_count [OF g]
      from t2 assms have "ok = ok3" "w1 = w3"
        by (simp_all add: read_def write_channel_gain_def Let_def p nf sck b g s3 n3)
      with c0 c1 c2 t2 show ?thesis by simp
    qed
  qed
qed

text \<open>Where a cycle stops.\<close>

lemma stopped_at_pulse_earlier:
  assumes "stopped_at_pulse hw sck w' w1" and "w' = evs @ w"
      and "count_list w' Log_pulse_too_long = count_list w Log_pulse_too_long"
  shows "stopped_at_pulse hw sck w w1"
  using assms unfolding stopped_at_pulse_def by auto

lemma pulse_sck_high_stop:
  "pulse_sck_high hw sck w = (ok, w1) \<Longrightarrow>
     (ok \<longrightarrow> count_list w1 Log_pulse_too_long = count_list w Log_pulse_too_long) \<and>
     (\<not> ok \<longrightarrow> stopped_at_pulse hw sck w w1)"
  by (auto simp: pulse_sck_high_def Let_def stopped_at_pulse_def split: if_splits)

lemma pulse_times_stop:
  "pulse_times hw sck n w = (ok, w1) \<Longrightarrow>
     (ok \<longrightarrow> count_list w1 Log_pulse_too_long = count_list w Log_pulse_too_long) \<and>
     (\<not> ok \<longrightarrow> stopped_at_pulse hw sck w w1)"
proof (induction n arbitrary: w)
  case 0
  then show ?case by simp
next
  case (Suc n)
  obtain ok0 w0 where p: "pulse_sck_high hw sck w = (ok0, w0)" by fastforce
  note s = pulse_sck_high_stop [OF p]
  from pulse_sck_high_extends [OF p] obtain e0 where e0: "w0 = e0 @ w" by blast
  show ?case
  proof (cases ok0)
    case True
    with Suc.prems p have "pulse_times hw sck n w0 = (ok, w1)" by simp
    from Suc.IH [OF this] s True e0 show ?thesis
      by (auto intro: stopped_at_pulse_earlier)
  next
    case False
    with Suc.prems p have "ok = False" "w1 = w0" by simp_all
    with s False show ?thesis by simp
  qed
qed

lemma read_bits_stop:
  "read_bits hw sck n as w = (ok, as1, w1) \<Longrightarrow>
     (ok \<longrightarrow> count_list w1 Log_pulse_too_long = count_list w Log_pulse_too_long) \<and>
     (\<not> ok \<longrightarrow> stopped_at_pulse hw sck w w1)"
proof (induction n arbitrary: as w)
  case 0
  then show ?case by simp
next
  case (Suc n)
  obtain ok0 w0 where p: "pulse_sck_high hw sck w = (ok0, w0)" by fastforce
  note s = pulse_sck_high_stop [OF p]
  from pulse_sck_high_extends [OF p] obtain e0 where e0: "w0 = e0 @ w" by blast
  show ?case
  proof (cases ok0)
    case True
    obtain as' w' where sh: "shift_and_read_ready hw as w0 = (as', w')" by fastforce
    from shift_and_read_ready_count [OF sh, of Log_pulse_too_long]
    have c': "count_list w' Log_pulse_too_long = count_list w0 Log_pulse_too_long" by simp
    from shift_and_read_ready_extends [OF sh] obtain e1 where e1: "w' = e1 @ w0" by blast
    from True Suc.prems p sh have "read_bits hw sck n as' w' = (ok, as1, w1)" by simp
    from Suc.IH [OF this] s True c' have
      a: "ok \<longrightarrow> count_list w1 Log_pulse_too_long = count_list w Log_pulse_too_long"
      and b: "\<not> ok \<longrightarrow> stopped_at_pulse hw sck w' w1" by simp_all
    have "w' = (e1 @ e0) @ w" using e0 e1 by simp
    moreover have "count_list w' Log_pulse_too_long = count_list w Log_pulse_too_long"
      using c' s True by simp
    ultimately have "\<not> ok \<longrightarrow> stopped_at_pulse hw sck w w1"
      using b stopped_at_pulse_earlier by blast
    with a show ?thesis by simp
  next
    case False
    with Suc.prems p have "ok = False" "w1 = w0" by simp_all
    with s False show ?thesis by simp
  qed
qed

lemma prepare_to_read_no_pulse_log:
  "prepare_to_read hw h w = (rdy, h1, w1) \<Longrightarrow>
     count_list w1 Log_pulse_too_long = count_list w Log_pulse_too_long"
proof -
  assume a: "prepare_to_read hw h w = (rdy, h1, w1)"
  obtain i as' w' where r: "ready_loop hw [0..<20] 0 (adcs h) (Output (sck_pin h) False # w) = (i, as', w')"
    by (metis prod_cases3)
  from a r have "w1 = Log_ready (list_all ready as') (i + 1) # w'"
    by (auto simp: prepare_to_read_def Let_def)
  moreover from ready_loop_count [OF r, of Log_pulse_too_long]
  have "count_list w' Log_pulse_too_long = count_list w Log_pulse_too_long" by simp
  ultimately show ?thesis by simp
qed

lemma read_stop:
  assumes "read hw h w = (ok, h1, w1)"
  shows "(gate_closed hw h w \<longrightarrow>
            \<not> ok \<and> count_list w1 (Output (sck_pin h) True) = count_list w (Output (sck_pin h) True)) \<and>
         (ok \<longrightarrow> count_list w1 Log_pulse_too_long = count_list w Log_pulse_too_long) \<and>
         (\<not> ok \<longrightarrow> gate_closed hw h w \<or> stopped_at_pulse hw (sck_pin h) w w1)"
proof -
  let ?h0 = "h\<lparr>adcs := map init_raw_read (adcs h)\<rparr>"
  let ?L = Log_pulse_too_long
  obtain rdy h' w' where p: "prepare_to_read hw ?h0 w = (rdy, h', w')" by (metis prod_cases3)
  have c0: "count_list w' (Output (sck_pin h) True) = count_list w (Output (sck_pin h) True)"
    by (rule prepare_to_read_count [OF p])
  have l0: "count_list w' ?L = count_list w ?L" by (rule prepare_to_read_no_pulse_log [OF p])
  from prepare_to_read_extends [OF p] obtain e0 where e0: "w' = e0 @ w" by blast
  obtain as' where f: "h' = h\<lparr>adcs := as'\<rparr>"
    using prepare_to_read_frame [OF p] by auto
  have sck: "sck_pin h' = sck_pin h" and aon: "all_or_nothing h' = all_or_nothing h"
    by (simp_all add: f)
  have g: "gate_closed hw h w = (\<not> rdy \<and> all_or_nothing h)"
    by (auto simp: gate_closed_def p)
  show ?thesis
  proof (cases "\<not> rdy \<and> all_or_nothing h'")
    case True
    with assms have "ok = False" "w1 = w'" by (simp_all add: read_def p)
    with c0 g True aon show ?thesis by simp
  next
    case False
    then have nf: "(\<not> rdy \<and> all_or_nothing h') = False" by simp
    from False aon g have ng: "\<not> gate_closed hw h w" by simp
    obtain ok2 as2 w2 where b: "read_bits hw (sck_pin h) 24 (adcs h') w' = (ok2, as2, w2)"
      by (metis prod_cases3)
    note s1 = read_bits_stop [OF b]
    from read_bits_extends [OF b] obtain e1 where e1: "w2 = e1 @ w'" by blast
    show ?thesis
    proof (cases ok2)
      case f2: False
      with assms have "ok = False" "w1 = w2" by (simp_all add: read_def p nf sck b)
      moreover from s1 f2 have "stopped_at_pulse hw (sck_pin h) w w2"
        using stopped_at_pulse_earlier [OF _ e0 l0] by simp
      ultimately show ?thesis using ng by simp
    next
      case t2: True
      let ?h3 = "h'\<lparr>adcs := map (\<lambda>a. if ready a then finish_raw_read a else a) as2\<rparr>"
      have n3: "num_pulses ?h3 = num_pulses h" by (simp add: f num_pulses_def)
      obtain ok3 w3 where gp: "pulse_times hw (sck_pin h) (num_pulses h) w2 = (ok3, w3)" by fastforce
      note s2 = pulse_times_stop [OF gp]
      from t2 assms have okw: "ok = ok3" "w1 = w3"
        by (simp_all add: read_def write_channel_gain_def Let_def p nf sck b gp n3)
      have l2: "count_list w2 ?L = count_list w ?L" using s1 t2 l0 by simp
      have e2: "w2 = (e1 @ e0) @ w" using e0 e1 by simp
      have "\<not> ok3 \<longrightarrow> stopped_at_pulse hw (sck_pin h) w w3"
        using s2 stopped_at_pulse_earlier [OF _ e2 l2] by blast
      with s2 l2 okw ng show ?thesis by simp
    qed
  qed
qed

text \<open>
  Claim C4, as the code has it. The events that a read cycle adds to the trace hold at
  most 24 + extra pulses, and exactly 24 + extra, none of them too long, when the cycle
  returns \<open>True\<close>, where extra is 1 for channel A with gain 128, 3 for channel A with
  gain 64, and 2 for channel B with either gain. A cycle that the readiness gate stops
  returns \<open>False\<close> and issues no pulse. Any other cycle that returns \<open>False\<close> ends with
  a pulse measured as too long and its warning: it issues no pulse after this one, and
  no earlier pulse of the cycle was too long.
\<close>

theorem read_pulse_count:
  assumes "read hw h w = (ok, h1, w1)"
  shows "\<exists>evs. w1 = evs @ w \<and>
           count_list evs (Output (sck_pin h) True) \<le> 24 + num_pulses h \<and>
           (ok \<longrightarrow> count_list evs (Output (sck_pin h) True) = 24 + num_pulses h \<and>
                  count_list evs Log_pulse_too_long = 0) \<and>
           (gate_closed hw h w \<longrightarrow> \<not> ok \<and> count_list evs (Output (sck_pin h) True) = 0) \<and>
           (\<not> ok \<longrightarrow> gate_closed hw h w \<or>
              (\<exists>rest. evs = Log_pulse_too_long # Output (sck_pin h) False #
                              Output (sck_pin h) True # rest \<and>
                      pulse_too_long hw (length (rest @ w)) \<and>
                      count_list rest Log_pulse_too_long = 0)) \<and>
           num_pulses (h\<lparr>channel_select := ''A'', channel_A_gain := 128\<rparr>) = 1 \<and>
           num_pulses (h\<lparr>channel_select := ''A'', channel_A_gain := 64\<rparr>) = 3 \<and>
           num_pulses (h\<lparr>channel_select := ''B''\<rparr>) = 2"
proof -
  let ?P = "Output (sck_pin h) True" and ?L = Log_pulse_too_long
  from read_extends [OF assms] obtain evs where e: "w1 = evs @ w" by blast
  note c = read_pulses_relative [OF assms]
  note s = read_stop [OF assms]
  have 1: "count_list evs ?P \<le> 24 + num_pulses h" using c e by simp
  have 2: "ok \<longrightarrow> count_list evs ?P = 24 + num_pulses h \<and> count_list evs ?L = 0"
    using c s e by simp
  have 3: "gate_closed hw h w \<longrightarrow> \<not> ok \<and> count_list evs ?P = 0" using s e by simp
  have 4: "\<exists>rest. evs = ?L # Output (sck_pin h) False # Output (sck_pin h) True # rest \<and>
                      pulse_too_long hw (length (rest @ w)) \<and> count_list rest ?L = 0"
    if "stopped_at_pulse hw (sck_pin h) w w1"
  proof -
    from that obtain w0 r where w1: "w1 = ?L # Output (sck_pin h) False # Output (sck_pin h) True # w0"
      and sl: "pulse_too_long hw (length w0)" and cl: "count_list w0 ?L = count_list w ?L"
      and w0: "w0 = r @ w"
      unfolding stopped_at_pulse_def by blast
    from w1 w0 e have "evs @ w = (?L # Output (sck_pin h) False # Output (sck_pin h) True # r) @ w"
      by simp
    then have "evs = ?L # Output (sck_pin h) False # Output (sck_pin h) True # r" by simp
    moreover have "count_list r ?L = 0" using cl w0 by simp
    ultimately show ?thesis using sl w0 by auto
  qed
  from 1 2 3 4 s e show ?thesis by (auto simp: num_pulses_def)
qed

theorem read_pulse_count_witness:
  "fst (read hw_all_ready hx_pair []) = True \<and>
   count_list (snd (snd (read hw_all_ready hx_pair []))) (Output (sck_pin hx_pair) True) = 25 \<and>
   count_list (snd (snd (read hw_all_ready hx_pair []))) Log_pulse_too_long = 0 \<and>
   num_pulses hx_pair = 1 \<and>
   gate_closed hw_never_ready hx_single [] \<and>
   fst (read hw_never_ready hx_single []) = False \<and>
   count_list (snd (snd (read hw_never_ready hx_single []))) (Output (sck_pin hx_single) True) = 0 \<and>
   fst (read hw_slow_pulse hx_single []) = False \<and>
   gate_closed hw_slow_pulse hx_single [] = False \<and>
   take 3 (snd (snd (read hw_slow_pulse hx_single []))) =
     [Log_pulse_too_long, Output (sck_pin hx_single) False, Output (sck_pin hx_single) True] \<and>
   count_list (snd (snd (read hw_slow_pulse hx_single []))) Log_pulse_too_long = 1"
proof -
  have e: "fst (read hw_all_ready hx_pair []) = True" by code_simp
  have n: "num_pulses hx_pair = 1" by (simp add: num_pulses_def hx_pair_def)
  have c: "read hw_all_ready hx_pair [] =
      (fst (read hw_all_ready hx_pair []), fst (snd (read hw_all_ready hx_pair [])),
       snd (snd (read hw_all_ready hx_pair [])))" by simp
  have g: "gate_closed hw_never_ready hx_single []" by code_simp
  have c2: "read hw_never_ready hx_single [] =
      (fst (read hw_never_ready hx_single []), fst (snd (read hw_never_ready hx_single [])),
       snd (snd (read hw_never_ready hx_single [])))" by simp
  have e3: "fst (read hw_slow_pulse hx_single []) = False" by code_simp
  have g3: "gate_closed hw_slow_pulse hx_single [] = False" by code_simp
  have c3: "read hw_slow_pulse hx_single [] =
      (fst (read hw_slow_pulse hx_single []), fst (snd (read hw_slow_pulse hx_single [])),
       snd (snd (read hw_slow_pulse hx_single [])))" by simp
  have a: "count_list (snd (snd (read hw_all_ready hx_pair []))) (Output (sck_pin hx_pair) True) = 25 \<and>
      count_list (snd (snd (read hw_all_ready hx_pair []))) Log_pulse_too_long = 0"
    using read_pulse_count [OF c] e by (simp add: n)
  have b: "fst (read hw_never_ready hx_single []) = False \<and>
      count_list (snd (snd (read hw_never_ready hx_single []))) (Output (sck_pin hx_single) True) = 0"
    using read_pulse_count [OF c2] g by auto
  have d: "take 3 (snd (snd (read hw_slow_pulse hx_single []))) =
     [Log_pulse_too_long, Output (sck_pin hx_single) False, Output (sck_pin hx_single) True] \<and>
     count_list (snd (snd (read hw_slow_pulse hx_single []))) Log_pulse_too_long = 1"
    using read_pulse_count [OF c3] e3 g3 by auto
  show ?thesis using a b d e n g e3 g3 by simp
qed

text \<open>
  With \<open>all_or_nothing\<close> set and a chip that is never ready, the cycle issues no pulse
  at all; when the first pulse is measured as too long, the cycle stops after this one
  pulse. In both cases 24 + extra would be 25.
\<close>

theorem read_pulse_count_counterexample:
  "all_or_nothing hx_single \<and> num_pulses hx_single = 1 \<and>
   fst (read hw_never_ready hx_single []) = False \<and>
   count_list (snd (snd (read hw_never_ready hx_single []))) (Output (sck_pin hx_single) True) = 0 \<and>
   fst (read hw_slow_pulse hx_single []) = False \<and>
   count_list (snd (snd (read hw_slow_pulse hx_single []))) (Output (sck_pin hx_single) True) = 1"
  by code_simp

section \<open>The readiness budget\<close>

lemma is_ready_all_flags:
  "is_ready_all hw as w = (bs, as1, w1) \<Longrightarrow>
     bs = map ready as1 \<and>
     map (\<lambda>a. a\<lparr>ready := False\<rparr>) as1 = map (\<lambda>a. a\<lparr>ready := False\<rparr>) as"
proof (induction as arbitrary: w bs as1 w1)
  case Nil
  then show ?case by simp
next
  case (Cons a as)
  obtain bs' as' w'' where rs:
    "is_ready_all hw as (if ready a then w else Input (dout_pin a) (din hw (length w) (dout_pin a)) # w) = (bs', as', w'')"
    by (metis prod_cases3)
  from Cons.IH [OF rs] Cons.prems rs show ?case
    by (auto simp: is_ready_eq)
qed

lemma is_ready_all_stuck:
  "is_ready_all hw as w = (bs, as1, w1) \<Longrightarrow>
     \<exists>a\<in>set as. \<not> ready a \<and> (\<forall>t. din hw t (dout_pin a) \<noteq> 0) \<Longrightarrow>
     \<exists>a\<in>set as1. \<not> ready a \<and> (\<forall>t. din hw t (dout_pin a) \<noteq> 0)"
proof (induction as arbitrary: w bs as1 w1)
  case Nil
  then show ?case by simp
next
  case (Cons a as)
  obtain bs' as' w'' where rs:
    "is_ready_all hw as (if ready a then w else Input (dout_pin a) (din hw (length w) (dout_pin a)) # w) = (bs', as', w'')"
    by (metis prod_cases3)
  from Cons.prems(1) rs have as1: "as1 = a\<lparr>ready := ready a \<or> din hw (length w) (dout_pin a) = 0\<rparr> # as'"
    by (auto simp: is_ready_eq)
  from Cons.prems(2) consider "\<not> ready a \<and> (\<forall>t. din hw t (dout_pin a) \<noteq> 0)"
    | "\<exists>a\<in>set as. \<not> ready a \<and> (\<forall>t. din hw t (dout_pin a) \<noteq> 0)" by auto
  then show ?case
  proof cases
    case 1
    then show ?thesis by (simp add: as1)
  next
    case 2
    from Cons.IH [OF rs 2] show ?thesis by (simp add: as1)
  qed
qed

lemma ready_loop_stuck:
  "ready_loop hw js i as w = (i1, as1, w1) \<Longrightarrow>
     \<exists>a\<in>set as. \<not> ready a \<and> (\<forall>t. din hw t (dout_pin a) \<noteq> 0) \<Longrightarrow>
     i1 = last (i # js) \<and>
     (\<exists>a\<in>set as1. \<not> ready a \<and> (\<forall>t. din hw t (dout_pin a) \<noteq> 0)) \<and>
     map (\<lambda>a. a\<lparr>ready := False\<rparr>) as1 = map (\<lambda>a. a\<lparr>ready := False\<rparr>) as \<and>
     count_list w1 (Sleep 10) = count_list w (Sleep 10) + length js"
proof (induction js arbitrary: i as w)
  case Nil
  then show ?case by simp
next
  case (Cons j js)
  obtain bs as' w' where r: "is_ready_all hw as w = (bs, as', w')" by (metis prod_cases3)
  note st = is_ready_all_stuck [OF r Cons.prems(2)]
  note fl = is_ready_all_flags [OF r]
  have c: "count_list w' (Sleep 10) = count_list w (Sleep 10)"
    using is_ready_all_count [OF r, of "Sleep 10"] by simp
  from st fl have "\<not> list_all (\<lambda>b. b) bs"
    by (auto simp: list_all_iff)
  with Cons.prems(1) r have "ready_loop hw js j as' (Sleep 10 # w') = (i1, as1, w1)" by simp
  from Cons.IH [OF this st] fl c show ?case by simp
qed

lemma map_through:
  assumes "map f xs = map f ys" and "\<And>a. g (f a) = g a"
  shows "map g xs = map g ys"
proof -
  have "map g xs = map g (map f xs)" using assms(2) by simp
  also have "\<dots> = map g (map f ys)" by (simp only: assms(1))
  also have "\<dots> = map g ys" using assms(2) by simp
  finally show ?thesis .
qed

text \<open>
  While a data line never reads 0, every device on it stays not ready, and every round
  of the readiness loop reads the line once for each of them.
\<close>

lemma is_ready_all_polls:
  assumes "\<forall>t. din hw t p \<noteq> 0"
  shows "\<forall>b\<in>set as. dout_pin b = p \<longrightarrow> \<not> ready b \<Longrightarrow>
         is_ready_all hw as w = (bs, as1, w1) \<Longrightarrow>
         length (filter (input_on p) w1) =
           length (filter (input_on p) w) + length (filter (\<lambda>b. dout_pin b = p) as) \<and>
         (\<forall>b\<in>set as1. dout_pin b = p \<longrightarrow> \<not> ready b) \<and>
         length (filter (\<lambda>b. dout_pin b = p) as1) = length (filter (\<lambda>b. dout_pin b = p) as)"
proof (induction as arbitrary: w bs as1 w1)
  case Nil
  then show ?case by simp
next
  case (Cons a as)
  let ?v = "din hw (length w) (dout_pin a)"
  let ?w' = "if ready a then w else Input (dout_pin a) ?v # w"
  obtain bs' as' w'' where rs: "is_ready_all hw as ?w' = (bs', as', w'')"
    by (metis prod_cases3)
  from Cons.prems(2) rs have as1: "as1 = a\<lparr>ready := ready a \<or> ?v = 0\<rparr> # as'" and w1: "w1 = w''"
    by (auto simp: is_ready_eq)
  from Cons.prems(1) have inv: "\<forall>b\<in>set as. dout_pin b = p \<longrightarrow> \<not> ready b" by simp
  note ih = Cons.IH [OF inv rs]
  show ?case
  proof (cases "dout_pin a = p")
    case True
    with Cons.prems(1) have nr: "\<not> ready a" by simp
    from True assms have v: "?v \<noteq> 0" by simp
    from ih True nr v show ?thesis by (simp add: as1 w1 input_on_def)
  next
    case False
    with ih show ?thesis by (simp add: as1 w1 input_on_def)
  qed
qed

lemma ready_loop_polls:
  assumes "\<forall>t. din hw t p \<noteq> 0"
  shows "\<forall>b\<in>set as. dout_pin b = p \<longrightarrow> \<not> ready b \<Longrightarrow>
         \<exists>b\<in>set as. dout_pin b = p \<Longrightarrow>
         ready_loop hw js i as w = (i1, as1, w1) \<Longrightarrow>
         length (filter (input_on p) w1) =
           length (filter (input_on p) w) + length js * length (filter (\<lambda>b. dout_pin b = p) as)"
proof (induction js arbitrary: i as w)
  case Nil
  then show ?case by simp
next
  case (Cons j js)
  obtain bs as' w' where r: "is_ready_all hw as w = (bs, as', w')" by (metis prod_cases3)
  note pl = is_ready_all_polls [OF assms Cons.prems(1) r]
  from Cons.prems(1,2) assms
  have st: "\<exists>a\<in>set as. \<not> ready a \<and> (\<forall>t. din hw t (dout_pin a) \<noteq> 0)" by auto
  note st' = is_ready_all_stuck [OF r st]
  note fl = is_ready_all_flags [OF r]
  from st' fl have "\<not> list_all (\<lambda>b. b) bs" by (auto simp: list_all_iff)
  with Cons.prems(3) r have rl: "ready_loop hw js j as' (Sleep 10 # w') = (i1, as1, w1)" by simp
  from Cons.prems(2) have "0 < length (filter (\<lambda>b. dout_pin b = p) as)"
    by (auto simp: filter_empty_conv)
  with pl have "0 < length (filter (\<lambda>b. dout_pin b = p) as')" by simp
  then have ex: "\<exists>b\<in>set as'. dout_pin b = p" by (auto simp: filter_empty_conv)
  from pl have inv: "\<forall>b\<in>set as'. dout_pin b = p \<longrightarrow> \<not> ready b" by simp
  have ns: "\<not> input_on p (Sleep 10)" by (simp add: input_on_def)
  from Cons.IH [OF inv ex rl] pl show ?case by (simp add: ns)
qed

lemma never_ready_relative:
  assumes "all_or_nothing h" and "a \<in> set (adcs h)" and "\<forall>t. din hw t (dout_pin a) \<noteq> 0"
  shows "\<exists>h1 w1. read hw h w = (False, h1, Log_ready False 20 # w1) \<and>
           count_list w1 (Sleep 10) = count_list w (Sleep 10) + 20 \<and>
           count_list w1 (Output (sck_pin h) True) = count_list w (Output (sck_pin h) True) \<and>
           map (\<lambda>a. a\<lparr>ready := False\<rparr>) (adcs h1) = map init_raw_read (adcs h) \<and>
           list_all (\<lambda>a. current_raw_read a = 0) (adcs h1) \<and>
           map raw_reads (adcs h1) = map raw_reads (adcs h) \<and>
           map reads (adcs h1) = map reads (adcs h) \<and>
           (\<exists>evs. w1 = evs @ w) \<and>
           length (filter (input_on (dout_pin a)) w1) =
             length (filter (input_on (dout_pin a)) w) +
             20 * length (filter (\<lambda>b. dout_pin b = dout_pin a) (adcs h))"
proof -
  let ?as0 = "map init_raw_read (adcs h)"
  let ?h0 = "h\<lparr>adcs := ?as0\<rparr>"
  let ?w0 = "Output (sck_pin h) False # w"
  obtain i as1 w1 where r: "ready_loop hw [0..<20] 0 ?as0 ?w0 = (i, as1, w1)"
    by (metis prod_cases3)
  have st0: "\<exists>a\<in>set ?as0. \<not> ready a \<and> (\<forall>t. din hw t (dout_pin a) \<noteq> 0)"
    using assms(2,3) by (auto simp: init_raw_read_def intro!: bexI [of _ a])
  note l = ready_loop_stuck [OF r st0]
  have i: "i = 19" using l by simp
  have nr: "list_all ready as1 = False" using l by (auto simp: list_all_iff)
  have fl: "map (\<lambda>a. a\<lparr>ready := False\<rparr>) as1 = ?as0"
    using l by (simp add: init_raw_read_def)
  have p: "prepare_to_read hw ?h0 w = (False, h\<lparr>adcs := as1\<rparr>, Log_ready False 20 # w1)"
    by (simp add: prepare_to_read_def r i nr)
  have rd: "read hw h w = (False, h\<lparr>adcs := as1\<rparr>, Log_ready False 20 # w1)"
    using assms(1) by (simp add: read_def p)
  have sl: "count_list w1 (Sleep 10) = count_list w (Sleep 10) + 20" using l by simp
  have pu: "count_list w1 (Output (sck_pin h) True) = count_list w (Output (sck_pin h) True)"
    using ready_loop_count [OF r, of "Output (sck_pin h) True"] by simp
  have fl': "map (\<lambda>a. a\<lparr>ready := False\<rparr>) as1 = map (\<lambda>a. a\<lparr>ready := False\<rparr>) ?as0"
    using l by simp
  have "map current_raw_read as1 = map current_raw_read ?as0"
    by (rule map_through [OF fl']) simp
  then have z: "map current_raw_read as1 = map (\<lambda>a. 0) (adcs h)"
    by (simp add: init_raw_read_def)
  have "\<forall>x\<in>set (map current_raw_read as1). x = 0"
    unfolding z by auto
  then have cr: "list_all (\<lambda>a. current_raw_read a = 0) as1"
    by (simp add: list_all_iff)
  have "map raw_reads as1 = map raw_reads ?as0"
    by (rule map_through [OF fl']) simp
  then have rr: "map raw_reads as1 = map raw_reads (adcs h)"
    by (simp add: init_raw_read_def)
  have "map reads as1 = map reads ?as0"
    by (rule map_through [OF fl']) simp
  then have rs: "map reads as1 = map reads (adcs h)"
    by (simp add: init_raw_read_def)
  have ex: "\<exists>evs. w1 = evs @ w" using ready_loop_extends [OF r] by auto
  have inv0: "\<forall>b\<in>set ?as0. dout_pin b = dout_pin a \<longrightarrow> \<not> ready b"
    by (simp add: init_raw_read_def)
  have ex0: "\<exists>b\<in>set ?as0. dout_pin b = dout_pin a"
    using assms(2) by (auto simp: init_raw_read_def intro!: bexI [of _ a])
  have k0: "length (filter (\<lambda>b. dout_pin b = dout_pin a) ?as0) =
      length (filter (\<lambda>b. dout_pin b = dout_pin a) (adcs h))"
    by (simp add: filter_map o_def init_raw_read_def)
  have no: "\<not> input_on (dout_pin a) (Output (sck_pin h) False)" by (simp add: input_on_def)
  have po: "length (filter (input_on (dout_pin a)) w1) =
      length (filter (input_on (dout_pin a)) w) +
      20 * length (filter (\<lambda>b. dout_pin b = dout_pin a) (adcs h))"
    using ready_loop_polls [OF assms(3) inv0 ex0 r] k0 no by simp
  show ?thesis
    using rd sl pu fl cr rr rs ex po by simp
qed

text \<open>
  Claim C3. With \<open>all_or_nothing\<close> set and a device whose data line never reads 0, a
  read cycle runs the readiness loop to its end: among the events it adds to the trace,
  the data line of this device is read 20 times for each device on it, so exactly 20
  times when the pin is the device's own; there are 20 sleeps of 10 milliseconds, one
  after each failed round of polls; and the last event is the log line that the sensors
  were not ready after 20 iterations.
  The cycle returns \<open>False\<close> without a clock pulse, and every device is as
  \<^verbatim>\<open>_init_raw_read\<close> left it but for the ready flag: the accumulators are 0 and nothing is
  appended to the histories.
\<close>

theorem never_ready_cycle:
  assumes "all_or_nothing h" and "a \<in> set (adcs h)" and "\<forall>t. din hw t (dout_pin a) \<noteq> 0"
  shows "\<exists>h1 evs. read hw h w = (False, h1, Log_ready False 20 # evs @ w) \<and>
           length (filter (input_on (dout_pin a)) evs) =
             20 * length (filter (\<lambda>b. dout_pin b = dout_pin a) (adcs h)) \<and>
           count_list evs (Sleep 10) = 20 \<and>
           count_list evs (Output (sck_pin h) True) = 0 \<and>
           map (\<lambda>a. a\<lparr>ready := False\<rparr>) (adcs h1) = map init_raw_read (adcs h) \<and>
           list_all (\<lambda>a. current_raw_read a = 0) (adcs h1) \<and>
           map raw_reads (adcs h1) = map raw_reads (adcs h) \<and>
           map reads (adcs h1) = map reads (adcs h)"
proof -
  from never_ready_relative [OF assms, of w] obtain h1 w1 where
    r: "read hw h w = (False, h1, Log_ready False 20 # w1)"
    and c: "count_list w1 (Sleep 10) = count_list w (Sleep 10) + 20"
      "count_list w1 (Output (sck_pin h) True) = count_list w (Output (sck_pin h) True)"
    and f: "map (\<lambda>a. a\<lparr>ready := False\<rparr>) (adcs h1) = map init_raw_read (adcs h)"
      "list_all (\<lambda>a. current_raw_read a = 0) (adcs h1)"
      "map raw_reads (adcs h1) = map raw_reads (adcs h)"
      "map reads (adcs h1) = map reads (adcs h)"
    and "\<exists>evs. w1 = evs @ w"
    and po: "length (filter (input_on (dout_pin a)) w1) =
      length (filter (input_on (dout_pin a)) w) +
      20 * length (filter (\<lambda>b. dout_pin b = dout_pin a) (adcs h))"
    by blast
  then obtain evs where e: "w1 = evs @ w" by blast
  from r c f e po show ?thesis by auto
qed

theorem never_ready_cycle_witness:
  "all_or_nothing hx_single \<and> ADC_init 5 \<in> set (adcs hx_single) \<and>
   (\<forall>t. din hw_never_ready t (dout_pin (ADC_init 5)) \<noteq> 0) \<and>
   fst (read hw_never_ready hx_single []) = False \<and>
   hd (snd (snd (read hw_never_ready hx_single []))) = Log_ready False 20 \<and>
   length (filter (input_on 5) (snd (snd (read hw_never_ready hx_single [])))) = 20 \<and>
   count_list (snd (snd (read hw_never_ready hx_single []))) (Sleep 10) = 20 \<and>
   count_list (snd (snd (read hw_never_ready hx_single []))) (Output 6 True) = 0 \<and>
   list_all (\<lambda>a. current_raw_read a = 0) (adcs (fst (snd (read hw_never_ready hx_single []))))"
proof -
  have h: "all_or_nothing hx_single" "ADC_init 5 \<in> set (adcs hx_single)"
    "\<forall>t. din hw_never_ready t (dout_pin (ADC_init 5)) \<noteq> 0" "sck_pin hx_single = 6"
    by (simp_all add: hx_single_def hw_never_ready_def)
  have k: "dout_pin (ADC_init 5) = 5"
    "length (filter (\<lambda>b. dout_pin b = 5) (adcs hx_single)) = 1"
    "\<not> input_on 5 (Log_ready False 20)"
    by (simp_all add: hx_single_def ADC_init_def input_on_def)
  show ?thesis
    using never_ready_cycle [OF h(1,2,3), of "[]"] h k by auto
qed

section \<open>What a read cycle leaves untouched\<close>

lemma blank_unready: "blank_cycle_fields (a\<lparr>ready := b\<rparr>) = blank_cycle_fields a"
  by (simp add: blank_cycle_fields_def)

lemma is_ready_all_frame:
  "is_ready_all hw as w = (bs, as1, w1) \<Longrightarrow> map blank_cycle_fields as1 = map blank_cycle_fields as"
  by (rule map_through [where f = "\<lambda>a. a\<lparr>ready := False\<rparr>"])
     (simp_all add: is_ready_all_flags blank_unready)

lemma ready_loop_frame:
  "ready_loop hw js i as w = (i1, as1, w1) \<Longrightarrow> map blank_cycle_fields as1 = map blank_cycle_fields as"
proof (induction js arbitrary: i as w)
  case Nil
  then show ?case by simp
next
  case (Cons j js)
  obtain bs as' w' where r: "is_ready_all hw as w = (bs, as', w')" by (metis prod_cases3)
  note f = is_ready_all_frame [OF r]
  show ?case
  proof (cases "list_all (\<lambda>b. b) bs")
    case True
    with Cons.prems r f show ?thesis by simp
  next
    case False
    with Cons.prems r have "ready_loop hw js j as' (Sleep 10 # w') = (i1, as1, w1)" by simp
    from Cons.IH [OF this] f show ?thesis by simp
  qed
qed

lemma shift_and_read_ready_frame:
  "shift_and_read_ready hw as w = (as1, w1) \<Longrightarrow> map blank_cycle_fields as1 = map blank_cycle_fields as"
proof (induction as arbitrary: w as1 w1)
  case Nil
  then show ?case by simp
next
  case (Cons a as)
  obtain a' w' where r: "(if ready a then shift_and_read hw a w else (a, w)) = (a', w')" by fastforce
  obtain as' w'' where rs: "shift_and_read_ready hw as w' = (as', w'')" by fastforce
  from r have "blank_cycle_fields a' = blank_cycle_fields a"
    by (auto simp: shift_and_read_def Let_def blank_cycle_fields_def split: if_splits)
  with Cons.IH [OF rs] Cons.prems r rs show ?case by auto
qed

lemma read_bits_frame:
  "read_bits hw sck n as w = (ok, as1, w1) \<Longrightarrow> map blank_cycle_fields as1 = map blank_cycle_fields as"
proof (induction n arbitrary: as w)
  case 0
  then show ?case by simp
next
  case (Suc n)
  obtain ok0 w0 where p: "pulse_sck_high hw sck w = (ok0, w0)" by fastforce
  show ?case
  proof (cases ok0)
    case True
    obtain as' w' where s: "shift_and_read_ready hw as w0 = (as', w')" by fastforce
    from True Suc.prems p s have "read_bits hw sck n as' w' = (ok, as1, w1)" by simp
    from Suc.IH [OF this] shift_and_read_ready_frame [OF s] show ?thesis by simp
  next
    case False
    with Suc.prems p show ?thesis by simp
  qed
qed

lemma read_frame:
  assumes "read hw h w = (ok, h1, w1)"
  shows "h1 = h\<lparr>adcs := adcs h1\<rparr> \<and> map blank_cycle_fields (adcs h1) = map blank_cycle_fields (adcs h)"
proof -
  let ?h0 = "h\<lparr>adcs := map init_raw_read (adcs h)\<rparr>"
  obtain i as' w' where r: "ready_loop hw [0..<20] 0 (adcs ?h0) (Output (sck_pin ?h0) False # w) = (i, as', w')"
    by (metis prod_cases3)
  have f0: "map blank_cycle_fields as' = map blank_cycle_fields (adcs h)"
    using ready_loop_frame [OF r] by (simp add: blank_cycle_fields_def init_raw_read_def)
  have p: "prepare_to_read hw ?h0 w = (list_all ready as', h\<lparr>adcs := as'\<rparr>, Log_ready (list_all ready as') (i + 1) # w')"
    using r by (simp add: prepare_to_read_def Let_def)
  show ?thesis
  proof (cases "\<not> list_all ready as' \<and> all_or_nothing h")
    case True
    with assms have "h1 = h\<lparr>adcs := as'\<rparr>" by (auto simp: read_def p)
    with f0 show ?thesis by simp
  next
    case False
    then have nf: "(\<not> list_all ready as' \<and> all_or_nothing h) = False" by simp
    obtain ok2 as2 w2 where b:
      "read_bits hw (sck_pin h) 24 as' (Log_ready (list_all ready as') (Suc i) # w') = (ok2, as2, w2)"
      by (metis prod_cases3)
    have f2: "map blank_cycle_fields as2 = map blank_cycle_fields (adcs h)"
      using read_bits_frame [OF b] f0 by simp
    show ?thesis
    proof (cases ok2)
      case False
      with assms have "h1 = h\<lparr>adcs := as2\<rparr>" by (auto simp: read_def p nf b)
      with f2 show ?thesis by simp
    next
      case True
      let ?as3 = "map (\<lambda>a. if ready a then finish_raw_read a else a) as2"
      have f3: "map blank_cycle_fields ?as3 = map blank_cycle_fields as2"
        by (simp add: finish_raw_read_def blank_cycle_fields_def Let_def)
      from True assms have "h1 = h\<lparr>adcs := ?as3\<rparr>"
        by (auto simp: read_def p nf b Let_def split: prod.splits)
      with f2 f3 show ?thesis by simp
    qed
  qed
qed

lemma read_times_frame:
  "read_times hw n h w = (h1, w1) \<Longrightarrow>
     h1 = h\<lparr>adcs := adcs h1\<rparr> \<and> map blank_cycle_fields (adcs h1) = map blank_cycle_fields (adcs h)"
proof (induction n arbitrary: h w)
  case 0
  then show ?case by simp
next
  case (Suc n)
  obtain ok h' w' where r: "read hw h w = (ok, h', w')" by (metis prod_cases3)
  from Suc.prems r have t: "read_times hw n h' w' = (h1, w1)" by simp
  from read_frame [OF r] obtain as' where h': "h' = h\<lparr>adcs := as'\<rparr>"
    and f: "map blank_cycle_fields as' = map blank_cycle_fields (adcs h)" by blast
  from Suc.IH [OF t] have "h1 = h'\<lparr>adcs := adcs h1\<rparr>" 
    and "map blank_cycle_fields (adcs h1) = map blank_cycle_fields (adcs h')" by simp_all
  then show ?case using h' f by simp
qed

section \<open>The state of the devices when a batch is aggregated\<close>

lemma map_through_nth:
  assumes "map f xs = map f ys" and "i < length xs"
  shows "f (xs ! i) = f (ys ! i)"
proof -
  have l: "length ys = length xs" using assms(1) by (metis length_map)
  have "f (xs ! i) = map f xs ! i" using assms(2) by simp
  also have "\<dots> = map f ys ! i" by (simp only: assms(1))
  also have "\<dots> = f (ys ! i)" using assms(2) l by simp
  finally show ?thesis .
qed

lemma batch_state_blank: "batch_state (blank_cycle_fields a) = batch_state a"
  by (simp add: batch_state_def blank_cycle_fields_def)

lemma batch_state_init:
  "constructor_thresholds a \<Longrightarrow> batch_state (init_set_of_reads a)"
  by (simp add: batch_state_def constructor_thresholds_def init_set_of_reads_def init_raw_read_def)

lemma read_raw_batch_state:
  assumes "list_all constructor_thresholds (adcs h)"
      and "read_times hw n (h\<lparr>adcs := map init_set_of_reads (adcs h)\<rparr>) w = (h2, w2)"
      and "i < length (adcs h2)"
  shows "batch_state (adcs h2 ! i) \<and> length (adcs h2) = length (adcs h) \<and>
         weight (adcs h2 ! i) = weight (adcs h ! i) \<and>
         weight_multiple (adcs h2 ! i) = weight_multiple (adcs h ! i) \<and>
         zero_offset (adcs h2 ! i) = zero_offset (adcs h ! i)"
proof -
  let ?as = "map init_set_of_reads (adcs h)"
  from read_times_frame [OF assms(2)]
  have f: "map blank_cycle_fields (adcs h2) = map blank_cycle_fields ?as" by simp
  then have l: "length (adcs h2) = length (adcs h)" by (metis length_map)
  with assms(3) have i: "i < length (adcs h)" by simp
  have e: "blank_cycle_fields (adcs h2 ! i) = blank_cycle_fields (init_set_of_reads (adcs h ! i))"
    using map_through_nth [OF f assms(3)] i by simp
  have "constructor_thresholds (adcs h ! i)"
    using assms(1) i by (simp add: list_all_length)
  then have "batch_state (blank_cycle_fields (adcs h2 ! i))"
    unfolding e batch_state_blank by (rule batch_state_init)
  then have b: "batch_state (adcs h2 ! i)" by (simp only: batch_state_blank)
  have "weight (blank_cycle_fields (adcs h2 ! i)) = weight (adcs h ! i)"
       "weight_multiple (blank_cycle_fields (adcs h2 ! i)) = weight_multiple (adcs h ! i)"
       "zero_offset (blank_cycle_fields (adcs h2 ! i)) = zero_offset (adcs h ! i)"
    unfolding e by (simp_all add: blank_cycle_fields_def init_set_of_reads_def init_raw_read_def)
  then show ?thesis using b l by (simp add: blank_cycle_fields_def)
qed

lemma calculate_ready_nth:
  "calculate_ready as = Inr as3 \<Longrightarrow> i < length as \<Longrightarrow>
     length as3 = length as \<and>
     (if ready (as ! i) then \<exists>ok. calculate_measurement (as ! i) = Inr (ok, as3 ! i)
      else as3 ! i = as ! i)"
proof (induction as arbitrary: as3 i)
  case Nil
  then show ?case by simp
next
  case (Cons a as)
  from Cons.prems(1) obtain ok a1 as1 where
    a1: "(if ready a then calculate_measurement a else Inr (True, a)) = Inr (ok, a1)"
    and as1: "calculate_ready as = Inr as1" and as3: "as3 = a1 # as1"
    by (auto split: sum.splits)
  show ?case
  proof (cases i)
    case 0
    with a1 as3 as1 Cons.IH [OF as1] show ?thesis
      by (cases as) (auto split: if_splits)
  next
    case (Suc j)
    with Cons.prems(2) have "j < length as" by simp
    from Cons.IH [OF as1 this] Suc as3 show ?thesis by simp
  qed
qed

lemma calculate_ready_length:
  "calculate_ready as = Inr as3 \<Longrightarrow> length as3 = length as"
  by (induction as arbitrary: as3) (auto split: sum.splits)

lemma skip_paths:
  assumes "batch_state a" and "skips_filter a"
  shows "\<exists>a1. calculate_measurement a = Inr (True, a1) \<and> measurement a1 \<noteq> None \<and>
              measurement_from_zero a1 = None \<and> weight a1 = weight a"
proof (cases "length (valid_reads (reads a)) = 1")
  case True
  then obtain v where "valid_reads (reads a) = [v]"
    by (cases "valid_reads (reads a)") auto
  from calculate_measurement_one [OF this] assms(1) show ?thesis
    by (simp add: batch_state_def)
next
  case False
  with assms(2) have l: "2 \<le> length (valid_reads (reads a))"
    and z: "deviation_stdev (valid_reads (reads a)) = 0" by (auto simp: skips_filter_def)
  from l have "valid_reads (reads a) \<noteq> []" by auto
  then obtain m where m: "median_py (valid_reads (reads a)) = Some m"
    using median_py_Some by blast
  from assms(1) z m show ?thesis
    by (simp add: calculate_measurement_many [OF l] batch_state_def Let_def)
qed

section \<open>When \<^verbatim>\<open>read_raw\<close> returns\<close>

lemma read_times_fields:
  assumes "read_times hw n h w = (h1, w1)"
  shows "single_adc h1 = single_adc h \<and> sck_pin h1 = sck_pin h \<and>
         all_or_nothing h1 = all_or_nothing h \<and> length (adcs h1) = length (adcs h)"
proof -
  from read_times_frame [OF assms] have e: "h1 = h\<lparr>adcs := adcs h1\<rparr>"
    and m: "map blank_cycle_fields (adcs h1) = map blank_cycle_fields (adcs h)" by simp_all
  have "single_adc h1 = single_adc (h\<lparr>adcs := adcs h1\<rparr>)"
       "sck_pin h1 = sck_pin (h\<lparr>adcs := adcs h1\<rparr>)"
       "all_or_nothing h1 = all_or_nothing (h\<lparr>adcs := adcs h1\<rparr>)"
    using e by (rule arg_cong)+
  moreover have "length (adcs h1) = length (adcs h)" using m by (rule map_eq_imp_length_eq)
  ultimately show ?thesis by simp
qed

lemma filter_and_mean_total:
  "weight_multiple a \<noteq> 0 \<Longrightarrow> \<exists>ok a1. filter_and_mean a = Inr (ok, a1)"
  by (auto simp: filter_and_mean_def mean_py_def Let_def)

lemma calculate_measurement_total:
  assumes "weight_multiple a \<noteq> 0"
  shows "\<exists>ok a1. calculate_measurement a = Inr (ok, a1)"
proof -
  consider "valid_reads (reads a) = []" | v where "valid_reads (reads a) = [v]"
    | "2 \<le> length (valid_reads (reads a))"
    by (cases "valid_reads (reads a)" rule: list.exhaust; cases "tl (valid_reads (reads a))") auto
  then show ?thesis
  proof cases
    case 1
    then show ?thesis by (auto simp: calculate_measurement_none)
  next
    case 2
    then show ?thesis by (auto simp: calculate_measurement_one)
  next
    case 3
    show ?thesis
      using assms
      by (auto simp: calculate_measurement_many [OF 3] Let_def filter_and_mean_total)
  qed
qed

lemma calculate_ready_total:
  "list_all (\<lambda>a. weight_multiple a \<noteq> 0) as \<Longrightarrow> \<exists>as3. calculate_ready as = Inr as3"
proof (induction as)
  case Nil
  then show ?case by simp
next
  case (Cons a as)
  then obtain as1 where as1: "calculate_ready as = Inr as1" by auto
  from Cons.prems have "weight_multiple a \<noteq> 0" by simp
  from calculate_measurement_total [OF this] obtain ok a1
    where "calculate_measurement a = Inr (ok, a1)" by blast
  with as1 show ?case by simp
qed

lemma read_raw_total:
  assumes "1 \<le> n" and "n \<le> 10000"
      and "list_all (\<lambda>a. weight_multiple a \<noteq> 0) (adcs h)"
      and "adcs h \<noteq> []"
  shows "\<exists>v h3 w3. read_raw hw n h w = Inr (v, h3, w3)"
proof -
  obtain h2 w2 where rt: "read_times hw (nat n) (h\<lparr>adcs := map init_set_of_reads (adcs h)\<rparr>) w = (h2, w2)"
    by fastforce
  from read_times_frame [OF rt]
  have f: "map blank_cycle_fields (adcs h2) = map blank_cycle_fields (map init_set_of_reads (adcs h))"
    by simp
  have "map weight_multiple (adcs h2) = map weight_multiple (map init_set_of_reads (adcs h))"
    by (rule map_through [OF f]) (simp add: blank_cycle_fields_def)
  then have wm: "map weight_multiple (adcs h2) = map weight_multiple (adcs h)"
    by (simp add: init_set_of_reads_def init_raw_read_def)
  have "list_all (\<lambda>x. x \<noteq> 0) (map weight_multiple (adcs h2))"
    unfolding wm using assms(3) by (simp add: list_all_iff)
  then have "list_all (\<lambda>a. weight_multiple a \<noteq> 0) (adcs h2)" by (simp add: list_all_iff)
  from calculate_ready_total [OF this] obtain as3 where cr: "calculate_ready (adcs h2) = Inr as3"
    by blast
  have "length as3 = length (adcs h)"
    using calculate_ready_length [OF cr] wm by (metis length_map)
  with assms(4) have "as3 \<noteq> []" by auto
  then show ?thesis
    using assms(1,2) by (simp add: read_raw_def rt cr Let_def split: list.splits)
qed

lemma read_raw_single:
  assumes "single_adc h" and "read_raw hw n h w = Inr (v, h3, w3)"
  shows "none_in v line = Inl (TypeError line) \<and> update_readings v PyNone = Inr v"
proof -
  obtain h2 w2 where rt: "read_times hw (nat n) (h\<lparr>adcs := map init_set_of_reads (adcs h)\<rparr>) w = (h2, w2)"
    by fastforce
  have sa: "single_adc h2" using read_times_fields [OF rt] assms(1) by simp
  from assms(2) rt sa obtain m where "v = scalar m"
    by (auto simp: read_raw_def Let_def split: if_splits sum.splits list.splits)
  then show ?thesis
    by (simp add: none_in_def update_readings_def scalar_def split: option.splits)
qed

section \<open>Aggregation without the ratio filter\<close>

text \<open>
  Claim C9, as the code has it. On the single-valid-value path and on the zero-stdev path
  aggregation returns \<open>True\<close> and sets \<open>measurement\<close>, and it leaves
  \<open>measurement_from_zero\<close> at \<open>None\<close>, where the batch reset put it, and \<open>weight\<close> as
  it was before the batch: the batch reset does not clear \<open>weight\<close>. So \<^verbatim>\<open>read_raw\<close>
  returns \<open>None\<close> for a device that was ready in the last cycle and whose batch took
  one of these paths: alone when there is a single data pin, at the position of the
  device in the list otherwise.
\<close>

theorem unfiltered_paths_give_no_reading:
  "(batch_state a \<and> skips_filter a \<longrightarrow>
      (\<exists>a1. calculate_measurement a = Inr (True, a1) \<and> measurement a1 \<noteq> None \<and>
            measurement_from_zero a1 = None \<and> weight a1 = weight a)) \<and>
   (list_all constructor_thresholds (adcs h) \<and>
    read_times hw (nat n) (h\<lparr>adcs := map init_set_of_reads (adcs h)\<rparr>) w = (h2, w2) \<and>
    i < length (adcs h2) \<and> ready (adcs h2 ! i) \<and> skips_filter (adcs h2 ! i) \<and>
    read_raw hw n h w = Inr (v, h3, w3) \<longrightarrow>
      measurement (adcs h3 ! i) \<noteq> None \<and> measurement_from_zero (adcs h3 ! i) = None \<and>
      weight (adcs h3 ! i) = weight (adcs h ! i) \<and>
      (single_adc h \<longrightarrow> i = 0 \<longrightarrow> v = PyNone) \<and>
      (\<not> single_adc h \<longrightarrow> (\<exists>ms. v = PyList ms \<and> length ms = length (adcs h) \<and> ms ! i = None)))"
proof (intro conjI impI)
  assume "batch_state a \<and> skips_filter a"
  then show "\<exists>a1. calculate_measurement a = Inr (True, a1) \<and> measurement a1 \<noteq> None \<and>
            measurement_from_zero a1 = None \<and> weight a1 = weight a"
    using skip_paths by blast
next
  assume A: "list_all constructor_thresholds (adcs h) \<and>
    read_times hw (nat n) (h\<lparr>adcs := map init_set_of_reads (adcs h)\<rparr>) w = (h2, w2) \<and>
    i < length (adcs h2) \<and> ready (adcs h2 ! i) \<and> skips_filter (adcs h2 ! i) \<and>
    read_raw hw n h w = Inr (v, h3, w3)"
  then have th: "list_all constructor_thresholds (adcs h)"
    and rt: "read_times hw (nat n) (h\<lparr>adcs := map init_set_of_reads (adcs h)\<rparr>) w = (h2, w2)"
    and i: "i < length (adcs h2)" and rdy: "ready (adcs h2 ! i)"
    and sk: "skips_filter (adcs h2 ! i)" and rr: "read_raw hw n h w = Inr (v, h3, w3)"
    by simp_all
  note bs = read_raw_batch_state [OF th rt i]
  from read_times_frame [OF rt] have sa: "single_adc h2 = single_adc h"
    by (metis hx711.select_convs(7) hx711.surjective hx711.update_convs(1))
  from rr rt obtain as3 where cr: "calculate_ready (adcs h2) = Inr as3"
    and h3: "h3 = h2\<lparr>adcs := as3\<rparr>"
    and v: "v = (if single_adc h then scalar (measurement_from_zero (hd as3))
                 else PyList (map measurement_from_zero as3))"
    and ne: "single_adc h \<longrightarrow> as3 \<noteq> []"
    by (auto simp: read_raw_def Let_def sa split: if_splits sum.splits list.splits)
  from calculate_ready_nth [OF cr i] rdy obtain ok where
    l3: "length as3 = length (adcs h2)" and c: "calculate_measurement (adcs h2 ! i) = Inr (ok, as3 ! i)"
    by auto
  from skip_paths [of "adcs h2 ! i"] bs sk c
  have p: "measurement (as3 ! i) \<noteq> None" "measurement_from_zero (as3 ! i) = None"
    "weight (as3 ! i) = weight (adcs h2 ! i)" by auto
  have hd0: "as3 \<noteq> [] \<Longrightarrow> hd as3 = as3 ! 0" by (simp add: hd_conv_nth)
  show "measurement (adcs h3 ! i) \<noteq> None" using p by (simp add: h3)
  show "measurement_from_zero (adcs h3 ! i) = None" using p by (simp add: h3)
  show "weight (adcs h3 ! i) = weight (adcs h ! i)" using p bs by (simp add: h3)
  show "v = PyNone" if "single_adc h" "i = 0"
    using that v ne p hd0 by (simp add: scalar_def)
  show "\<exists>ms. v = PyList ms \<and> length ms = length (adcs h) \<and> ms ! i = None" if "\<not> single_adc h"
    using that v p i l3 bs by simp
qed

theorem unfiltered_paths_give_no_reading_witness:
  "batch_state ((init_set_of_reads (ADC_init 5))\<lparr>reads := [Some 7]\<rparr>) \<and>
   skips_filter ((init_set_of_reads (ADC_init 5))\<lparr>reads := [Some 7]\<rparr>) \<and>
   (\<exists>a1. calculate_measurement ((init_set_of_reads (ADC_init 5))\<lparr>reads := [Some 7]\<rparr>) = Inr (True, a1) \<and>
         measurement a1 \<noteq> None \<and> measurement_from_zero a1 = None) \<and>
   list_all constructor_thresholds (adcs hx_pair) \<and>
   reads (adcs (fst (read_times hw_all_ready (nat 3)
            (hx_pair\<lparr>adcs := map init_set_of_reads (adcs hx_pair)\<rparr>) [])) ! 0) = [Some 0, Some 0, Some 0] \<and>
   ready (adcs (fst (read_times hw_all_ready (nat 3)
            (hx_pair\<lparr>adcs := map init_set_of_reads (adcs hx_pair)\<rparr>) [])) ! 0) \<and>
   (\<exists>v h3 w3. read_raw hw_all_ready 3 hx_pair [] = Inr (v, h3, w3) \<and>
         measurement (adcs h3 ! 0) \<noteq> None \<and> measurement_from_zero (adcs h3 ! 0) = None \<and>
         (\<exists>ms. v = PyList ms \<and> length ms = 2 \<and> ms ! 0 = None)) \<and>
   list_all constructor_thresholds (adcs hx_single) \<and>
   reads (adcs (fst (read_times hw_all_ready (nat 1)
            (hx_single\<lparr>adcs := map init_set_of_reads (adcs hx_single)\<rparr>) [])) ! 0) = [Some 0] \<and>
   ready (adcs (fst (read_times hw_all_ready (nat 1)
            (hx_single\<lparr>adcs := map init_set_of_reads (adcs hx_single)\<rparr>) [])) ! 0) \<and>
   (\<exists>v h3 w3. read_raw hw_all_ready 1 hx_single [] = Inr (v, h3, w3) \<and>
         measurement (adcs h3 ! 0) \<noteq> None \<and> measurement_from_zero (adcs h3 ! 0) = None \<and>
         v = PyNone)"
proof -
  let ?a = "(init_set_of_reads (ADC_init 5))\<lparr>reads := [Some 7]\<rparr>"
  let ?rt = "read_times hw_all_ready (nat 3) (hx_pair\<lparr>adcs := map init_set_of_reads (adcs hx_pair)\<rparr>) []"
  let ?st = "read_times hw_all_ready (nat 1) (hx_single\<lparr>adcs := map init_set_of_reads (adcs hx_single)\<rparr>) []"
  have b: "batch_state ?a" by (rule batch_state_fixture)
  have s: "skips_filter ?a" by (simp add: skips_filter_def valid_reads_def)
  have t: "list_all constructor_thresholds (adcs hx_pair)"
    by (simp add: hx_pair_def constructor_thresholds_def ADC_init_def)
  have rt: "?rt = (fst ?rt, snd ?rt)" by simp
  have l: "0 < length (adcs (fst ?rt))" by code_simp
  have r: "ready (adcs (fst ?rt) ! 0)" by code_simp
  have rs: "reads (adcs (fst ?rt) ! 0) = [Some 0, Some 0, Some 0]" by code_simp
  have sk: "skips_filter (adcs (fst ?rt) ! 0)"
    unfolding skips_filter_def rs by (simp add: stat_eval)
  have "list_all (\<lambda>a. weight_multiple a \<noteq> 0) (adcs hx_pair)" "adcs hx_pair \<noteq> []"
       "\<not> single_adc hx_pair" "length (adcs hx_pair) = 2"
    by (simp_all add: hx_pair_def ADC_init_def)
  with read_raw_total [of 3 hx_pair hw_all_ready "[]"]
  obtain v h3 w3 where rr: "read_raw hw_all_ready 3 hx_pair [] = Inr (v, h3, w3)"
    and ns: "\<not> single_adc hx_pair" and l2: "length (adcs hx_pair) = 2" by auto
  from unfiltered_paths_give_no_reading [where a = ?a and h = hx_pair and hw = hw_all_ready
      and n = 3 and w = "[]" and ?h2.0 = "fst ?rt" and ?w2.0 = "snd ?rt" and i = 0 and v = v
      and ?h3.0 = h3 and ?w3.0 = w3] b s t rt l r sk rr ns l2
  have pair: "(\<exists>a1. calculate_measurement ?a = Inr (True, a1) \<and>
         measurement a1 \<noteq> None \<and> measurement_from_zero a1 = None) \<and>
     (\<exists>v h3 w3. read_raw hw_all_ready 3 hx_pair [] = Inr (v, h3, w3) \<and>
         measurement (adcs h3 ! 0) \<noteq> None \<and> measurement_from_zero (adcs h3 ! 0) = None \<and>
         (\<exists>ms. v = PyList ms \<and> length ms = 2 \<and> ms ! 0 = None))"
    by auto
  have t': "list_all constructor_thresholds (adcs hx_single)"
    by (simp add: hx_single_def constructor_thresholds_def ADC_init_def)
  have st: "?st = (fst ?st, snd ?st)" by simp
  have l': "0 < length (adcs (fst ?st))" by code_simp
  have r': "ready (adcs (fst ?st) ! 0)" by code_simp
  have rs': "reads (adcs (fst ?st) ! 0) = [Some 0]" by code_simp
  have sk': "skips_filter (adcs (fst ?st) ! 0)"
    unfolding skips_filter_def rs' by (simp add: valid_reads_def)
  have "list_all (\<lambda>a. weight_multiple a \<noteq> 0) (adcs hx_single)" "adcs hx_single \<noteq> []"
       "single_adc hx_single"
    by (simp_all add: hx_single_def ADC_init_def)
  with read_raw_total [of 1 hx_single hw_all_ready "[]"]
  obtain v' h3' w3' where rr': "read_raw hw_all_ready 1 hx_single [] = Inr (v', h3', w3')"
    and sa: "single_adc hx_single" by auto
  from unfiltered_paths_give_no_reading [where a = ?a and h = hx_single and hw = hw_all_ready
      and n = 1 and w = "[]" and ?h2.0 = "fst ?st" and ?w2.0 = "snd ?st" and i = 0 and v = v'
      and ?h3.0 = h3' and ?w3.0 = w3'] b s t' st l' r' sk' rr' sa
  have single: "\<exists>v h3 w3. read_raw hw_all_ready 1 hx_single [] = Inr (v, h3, w3) \<and>
         measurement (adcs h3 ! 0) \<noteq> None \<and> measurement_from_zero (adcs h3 ! 0) = None \<and>
         v = PyNone"
    by auto
  show ?thesis
    using b s t t' r rs r' rs' pair single by simp
qed

text \<open>
  An ADC whose earlier batch 1, 2, 3 gave the weight 2: after the batch reset and the
  batch of the single read 7, aggregation succeeds, \<open>measurement_from_zero\<close> is
  \<open>None\<close>, and the weight is still 2, not \<open>None\<close>.
\<close>

theorem unfiltered_paths_counterexample:
  "calculate_measurement ((init_set_of_reads (ADC_init 5))\<lparr>reads := [Some 1, Some 2, Some 3]\<rparr>) =
     Inr (True, adc_after_1_2_3) \<and>
   batch_state ((init_set_of_reads adc_after_1_2_3)\<lparr>reads := [Some 7]\<rparr>) \<and>
   calculate_measurement ((init_set_of_reads adc_after_1_2_3)\<lparr>reads := [Some 7]\<rparr>) =
     Inr (True, (init_set_of_reads adc_after_1_2_3)
                  \<lparr>reads := [Some 7], reads_filtered := [7], measurement := Some 7\<rparr>) \<and>
   measurement_from_zero ((init_set_of_reads adc_after_1_2_3)
                  \<lparr>reads := [Some 7], reads_filtered := [7], measurement := Some 7\<rparr>) = None \<and>
   weight ((init_set_of_reads adc_after_1_2_3)
                  \<lparr>reads := [Some 7], reads_filtered := [7], measurement := Some 7\<rparr>) = Some 2"
  by (simp add: adc_after_1_2_3_def calculate_measurement_def filter_and_mean_def stdev_py_def
      mean_py_def stat_eval batch_state_def init_set_of_reads_def init_raw_read_def ADC_init_def
      sqrt_gt_iff ratio_le_iff power2_eq_square)

section \<open>\<^verbatim>\<open>zero\<close> on a controller with a single data pin\<close>

lemma zero_loop_raises:
  "0 < k \<Longrightarrow> read_raw hw n h w = Inl e \<Longrightarrow> zero_loop hw n k r h w = Inl e"
  by (cases k) simp_all

text \<open>
  Claim C10, as the code has it. On a controller with a single data pin \<^verbatim>\<open>read_raw\<close>
  returns a number or \<open>None\<close>, not a list, so no call of \<^verbatim>\<open>zero\<close> completes. With a
  \<^verbatim>\<open>retry_limit\<close> of 1 or more the first \<^verbatim>\<open>read_raw\<close> is followed by the test
  \<^verbatim>\<open>None not in readings\<close> of line 358, which raises a \<^verbatim>\<open>TypeError\<close>, unless
  \<^verbatim>\<open>read_raw\<close> itself raises, and then its exception is the one \<^verbatim>\<open>zero\<close> raises; with
  a \<^verbatim>\<open>retry_limit\<close> of 0 or less the test \<^verbatim>\<open>None in readings\<close> of line 360 raises the
  \<^verbatim>\<open>TypeError\<close>. \<^verbatim>\<open>read_raw\<close> does not raise when \<^verbatim>\<open>readings_to_average\<close> is between 1
  and 10000, there is a device, and no weight multiple is 0.
\<close>

theorem zero_single_pin:
  "(single_adc h \<longrightarrow>
      zero hw n retry_limit h w =
        (if retry_limit \<le> 0 then Inl (TypeError 360)
         else case read_raw hw n h w of Inl e \<Rightarrow> Inl e | Inr r \<Rightarrow> Inl (TypeError 358))) \<and>
   (single_adc h \<and> 0 < retry_limit \<and> 1 \<le> n \<and> n \<le> 10000 \<and> adcs h \<noteq> [] \<and>
    list_all (\<lambda>a. weight_multiple a \<noteq> 0) (adcs h) \<longrightarrow>
      zero hw n retry_limit h w = Inl (TypeError 358))"
proof -
  have 1: "zero hw n retry_limit h w =
        (if retry_limit \<le> 0 then Inl (TypeError 360)
         else case read_raw hw n h w of Inl e \<Rightarrow> Inl e | Inr r \<Rightarrow> Inl (TypeError 358))"
    if s: "single_adc h"
  proof (cases "retry_limit \<le> 0")
    case True
    then have "nat retry_limit = 0" by simp
    then show ?thesis using True by (simp add: zero_def none_in_def)
  next
    case False
    then obtain k where k: "nat retry_limit = Suc k" by (cases "nat retry_limit") auto
    show ?thesis
    proof (cases "read_raw hw n h w")
      case (Inl e)
      then show ?thesis using False by (simp add: zero_def k)
    next
      case (Inr r)
      obtain v h3 w3 where r: "r = (v, h3, w3)" by (metis prod_cases3)
      from read_raw_single [OF s Inr [unfolded r], of 358]
      show ?thesis using False by (simp add: zero_def k Inr r)
    qed
  qed
  have 2: "zero hw n retry_limit h w = Inl (TypeError 358)"
    if "single_adc h \<and> 0 < retry_limit \<and> 1 \<le> n \<and> n \<le> 10000 \<and> adcs h \<noteq> [] \<and>
        list_all (\<lambda>a. weight_multiple a \<noteq> 0) (adcs h)"
  proof -
    from that read_raw_total [of n h hw w] obtain v h3 w3 where "read_raw hw n h w = Inr (v, h3, w3)"
      by blast
    with 1 that show ?thesis by simp
  qed
  from 1 2 show ?thesis by blast
qed

theorem zero_single_pin_witness:
  "single_adc hx_single \<and> (0::int) < 10 \<and> (1::int) \<le> 30 \<and> (30::int) \<le> 10000 \<and>
   adcs hx_single \<noteq> [] \<and> list_all (\<lambda>a. weight_multiple a \<noteq> 0) (adcs hx_single) \<and>
   zero hw_all_ready 30 10 hx_single [] = Inl (TypeError 358) \<and>
   zero hw_all_ready 30 0 hx_single [] = Inl (TypeError 360)"
proof -
  have h: "single_adc hx_single" "adcs hx_single \<noteq> []"
    "list_all (\<lambda>a. weight_multiple a \<noteq> 0) (adcs hx_single)"
    by (simp_all add: hx_single_def ADC_init_def)
  show ?thesis
    using zero_single_pin [of hx_single hw_all_ready 30 10 "[]"]
      zero_single_pin [of hx_single hw_all_ready 30 0 "[]"] h
    by auto
qed

text \<open>
  With \<^verbatim>\<open>readings_to_average\<close> 0 the call raises the \<^verbatim>\<open>ValueError\<close> of \<^verbatim>\<open>read_raw\<close>,
  before any membership test.
\<close>

theorem zero_single_pin_counterexample:
  "single_adc hx_single \<and> zero hw_all_ready 0 10 hx_single [] = Inl (ValueError 258)"
proof -
  have r: "read_raw hw_all_ready 0 hx_single [] = Inl (ValueError 258)"
    by (simp add: read_raw_def)
  have z: "zero_loop hw_all_ready 0 (nat 10) PyNone hx_single [] = Inl (ValueError 258)"
    by (rule zero_loop_raises [OF _ r]) simp
  show ?thesis
    unfolding zero_def z by (simp add: hx_single_def)
qed

section \<open>Batches whose deviations all agree\<close>

text \<open>
  When the standard deviation of the deviations is 0, every read lies at the same
  distance from the median, as many below it as above: the median is the mean.
\<close>

lemma sum_list_insort: "sum_list (insort x xs) = x + sum_list xs" for x :: int
  by (induction xs) auto

lemma sum_list_sort: "sum_list (sort xs) = sum_list xs" for xs :: "int list"
  by (induction xs) (simp_all add: sum_list_insort)

lemma of_int_sum_list: "real_of_int (sum_list xs) = sum_list (map real_of_int xs)"
  by (induction xs) simp_all

lemma variance_zero_all_equal:
  assumes "2 \<le> length ds" and "variance_py ds = 0"
  shows "\<forall>d\<in>set ds. d = mean_real ds"
proof -
  have "real (length ds - 1) \<noteq> 0" using assms(1) by simp
  with assms(2) have z: "sum_list (map (\<lambda>x. (x - mean_real ds)\<^sup>2) ds) = 0"
    by (simp add: variance_py_def Let_def)
  have nn: "\<And>x. x \<in> set (map (\<lambda>x. (x - mean_real ds)\<^sup>2) ds) \<Longrightarrow> 0 \<le> x" by auto
  have "\<forall>x\<in>set (map (\<lambda>x. (x - mean_real ds)\<^sup>2) ds). x = 0"
    using sum_list_nonneg_eq_0_iff [OF nn] z by blast
  then show ?thesis by auto
qed

lemma zero_spread_median_is_mean:
  assumes "2 \<le> length vs" and "deviation_stdev vs = 0"
  shows "mean_py vs = median_py vs"
proof -
  define s where "s = sort vs"
  define n where "n = length vs"
  define k where "k = n div 2"
  define c where "c = mean_real (deviations vs)"
  have ne: "vs \<noteq> []" using assms(1) by auto
  have n2: "2 \<le> n" using assms(1) by (simp add: n_def)
  obtain med where med: "median_py vs = Some med" using median_py_Some [OF ne] by blast
  have ls: "length s = n" and ss: "set s = set vs" and so: "sorted s"
    by (simp_all add: s_def n_def)
  have meddef: "med = (if n mod 2 = 1 then real_of_int (s ! k)
                       else (real_of_int (s ! (k - 1)) + real_of_int (s ! k)) / 2)"
    using med ne by (simp add: median_py_def Let_def s_def n_def k_def sort_Nil_iff split: if_splits)
  have "variance_py (deviations vs) = 0" using assms(2) by (simp add: deviation_stdev_def)
  moreover have "2 \<le> length (deviations vs)" using assms(1) by (simp add: deviations_def)
  ultimately have "\<forall>d\<in>set (deviations vs). d = c"
    unfolding c_def by (rule variance_zero_all_equal [rotated])
  then have dv: "\<And>r. r \<in> set vs \<Longrightarrow> \<bar>real_of_int r - med\<bar> = c"
    by (simp add: deviations_def med)
  have dn: "\<And>i. i < n \<Longrightarrow> \<bar>real_of_int (s ! i) - med\<bar> = c"
    using dv ss ls by (metis nth_mem)
  have total: "sum_list (map real_of_int s) = real n * med"
  proof (cases "c = 0")
    case True
    have "map real_of_int s = replicate n med"
      using dn True ls by (auto simp: list_eq_iff_nth_eq)
    then show ?thesis by (simp add: sum_list_replicate)
  next
    case False
    have kn: "k < n" using n2 by (simp add: k_def)
    have even: "n mod 2 = 0"
    proof (rule ccontr)
      assume "n mod 2 \<noteq> 0"
      then have "med = real_of_int (s ! k)" using meddef by simp
      with dn [OF kn] False show False by simp
    qed
    then have n2k: "n = 2 * k" by (auto simp: k_def)
    have k1: "1 \<le> k" using n2 n2k by simp
    let ?x = "real_of_int (s ! (k - 1))" and ?y = "real_of_int (s ! k)"
    have m2: "med = (?x + ?y) / 2" using meddef even by simp
    have xy: "?x \<le> ?y"
      using sorted_nth_mono [OF so, of "k - 1" k] kn ls by simp
    have dx: "\<bar>?x - med\<bar> = c" using dn [of "k - 1"] kn by simp
    have dy: "\<bar>?y - med\<bar> = c" using dn [OF kn] .
    have x: "?x = med - c" and y: "?y = med + c" using m2 xy dx dy by (simp_all add: field_simps abs_if split: if_splits)
    have cpos: "0 < c" using dx False by linarith
    have lo: "real_of_int (s ! i) = med - c" if "i < k" for i
    proof -
      have "s ! i \<le> s ! (k - 1)" using sorted_nth_mono [OF so, of i "k - 1"] that kn ls by simp
      then have "real_of_int (s ! i) \<le> med - c" using x by simp
      moreover have "\<bar>real_of_int (s ! i) - med\<bar> = c" using dn [of i] that kn by simp
      ultimately show ?thesis using cpos by linarith
    qed
    have hi: "real_of_int (s ! i) = med + c" if "k \<le> i" "i < n" for i
    proof -
      have "s ! k \<le> s ! i" using sorted_nth_mono [OF so, of k i] that ls by simp
      then have "med + c \<le> real_of_int (s ! i)" using y by simp
      moreover have "\<bar>real_of_int (s ! i) - med\<bar> = c" using dn [OF that(2)] .
      ultimately show ?thesis using cpos by linarith
    qed
    have t: "map real_of_int (take k s) = replicate k (med - c)"
      using lo kn ls by (auto simp: list_eq_iff_nth_eq)
    have d: "map real_of_int (drop k s) = replicate k (med + c)"
      using hi ls n2k by (auto simp: list_eq_iff_nth_eq)
    have "sum_list (map real_of_int s) = sum_list (map real_of_int (take k s @ drop k s))"
      by simp
    also have "\<dots> = real k * (med - c) + real k * (med + c)"
      unfolding map_append sum_list_append t d by (simp add: sum_list_replicate)
    also have "\<dots> = real n * med" by (simp add: n2k algebra_simps)
    finally show ?thesis .
  qed
  have "real_of_int (sum_list vs) = real n * med"
    using total by (simp add: of_int_sum_list [symmetric] s_def sum_list_sort)
  then have "mean_py vs = Some med"
    using n2 ne by (simp add: mean_py_def n_def)
  with med show ?thesis by simp
qed

lemma valid_reads_Some: "valid_reads (map Some xs) = xs"
  by (induction xs) (simp_all add: valid_reads_def)

lemma mean_py_single: "mean_py [v] = Some (real_of_int v)"
  by (simp add: mean_py_def)

text \<open>What a run of the aggregation stores when it succeeds, and when it keeps every valid read.\<close>

lemma filter_and_mean_True:
  assumes "filter_and_mean a = Inr (True, a1)"
  shows "reads_filtered a1 \<noteq> [] \<and> measurement a1 = mean_py (reads_filtered a1)"
  using assms
  by (auto simp: filter_and_mean_def Let_def mean_py_def split: if_splits option.splits)

lemma success_shape:
  assumes "batch_state a" and "calculate_measurement a = Inr (True, a1)"
  shows "reads_filtered a1 \<noteq> [] \<and>
         (measurement a1 = mean_py (reads_filtered a1) \<or>
          (reads_filtered a1 = valid_reads (reads a) \<and> 2 \<le> length (valid_reads (reads a)) \<and>
           deviation_stdev (valid_reads (reads a)) = 0 \<and>
           measurement a1 = median_py (valid_reads (reads a))))"
proof -
  consider "valid_reads (reads a) = []" | v where "valid_reads (reads a) = [v]"
    | "2 \<le> length (valid_reads (reads a))"
    by (cases "valid_reads (reads a)" rule: list.exhaust; cases "tl (valid_reads (reads a))") auto
  then show ?thesis
  proof cases
    case 1
    with assms(2) show ?thesis by (simp add: calculate_measurement_none)
  next
    case 2
    with assms(2) show ?thesis by (auto simp: calculate_measurement_one mean_py_single)
  next
    case 3
    let ?sd = "deviation_stdev (valid_reads (reads a))"
    consider "max_stdev a < ?sd" | "\<not> max_stdev a < ?sd" "?sd \<noteq> 0" | "\<not> max_stdev a < ?sd" "?sd = 0"
      by blast
    then show ?thesis
    proof cases
      case 1
      with assms show ?thesis
        by (simp add: calculate_measurement_many [OF 3] Let_def filter_and_mean_no_ratios batch_state_def)
    next
      case 2
      with assms(2) have "filter_and_mean
         (a\<lparr>reads_filtered := valid_reads (reads a), read_med := median_py (valid_reads (reads a)),
            devs_from_med := deviations (valid_reads (reads a)), read_stdev := ?sd,
            ratios_to_stdev := map (\<lambda>dev. dev / ?sd) (deviations (valid_reads (reads a)))\<rparr>) = Inr (True, a1)"
        by (simp add: calculate_measurement_many [OF 3] Let_def)
      from filter_and_mean_True [OF this] show ?thesis by simp
    next
      case c: 3
      with assms(2) 3 show ?thesis
        by (auto simp: calculate_measurement_many [OF 3] Let_def)
    qed
  qed
qed

lemma rerun_shape:
  assumes "calculate_measurement b = Inr (ok, b1)"
      and "reads_filtered b1 = valid_reads (reads b)" and "valid_reads (reads b) \<noteq> []"
      and "batch_state b"
  shows "ok \<and> (measurement b1 = mean_py (valid_reads (reads b)) \<or>
              (2 \<le> length (valid_reads (reads b)) \<and> deviation_stdev (valid_reads (reads b)) = 0 \<and>
               measurement b1 = median_py (valid_reads (reads b))))"
proof -
  consider v where "valid_reads (reads b) = [v]" | "2 \<le> length (valid_reads (reads b))"
    using assms(3)
    by (cases "valid_reads (reads b)" rule: list.exhaust; cases "tl (valid_reads (reads b))") auto
  then show ?thesis
  proof cases
    case 1
    with assms(1) show ?thesis by (auto simp: calculate_measurement_one mean_py_single)
  next
    case 2
    let ?vs = "valid_reads (reads b)"
    let ?sd = "deviation_stdev ?vs"
    consider "max_stdev b < ?sd" | "\<not> max_stdev b < ?sd" "?sd \<noteq> 0" | "\<not> max_stdev b < ?sd" "?sd = 0"
      by blast
    then show ?thesis
    proof cases
      case 1
      with assms show ?thesis
        by (auto simp: calculate_measurement_many [OF 2] Let_def filter_and_mean_no_ratios batch_state_def)
    next
      case c: 2
      let ?b4 = "b\<lparr>reads_filtered := ?vs, read_med := median_py ?vs,
            devs_from_med := deviations ?vs, read_stdev := ?sd,
            ratios_to_stdev := map (\<lambda>dev. dev / ?sd) (deviations ?vs)\<rparr>"
      from c assms(1) have f: "filter_and_mean ?b4 = Inr (ok, b1)"
        by (simp add: calculate_measurement_many [OF 2] Let_def)
      have "ok" using f assms(2,3)
        by (auto simp: filter_and_mean_def Let_def split: if_splits option.splits)
      with f filter_and_mean_True [of ?b4 b1] assms(2) show ?thesis by simp
    next
      case c: 3
      with assms(1) 2 show ?thesis
        by (auto simp: calculate_measurement_many [OF 2] Let_def)
    qed
  qed
qed

text \<open>
  Claim C7, as the code has it. The filter is a single pass and a second run may remove
  reads that the first one kept. For every batch on which aggregation succeeds, a second
  aggregation, of a batch made of the survivors, that keeps all of them succeeds with the
  same measurement.
\<close>

theorem rerun_keeping_all_survivors:
  assumes "batch_state a" and "batch_state b"
      and "calculate_measurement a = Inr (True, a1)"
      and "reads b = map Some (reads_filtered a1)"
      and "calculate_measurement b = Inr (ok, b1)"
      and "reads_filtered b1 = reads_filtered a1"
  shows "ok \<and> measurement b1 = measurement a1"
proof -
  let ?S = "reads_filtered a1"
  have vb: "valid_reads (reads b) = ?S" by (simp add: assms(4) valid_reads_Some)
  note fs = success_shape [OF assms(1,3)]
  then have ne: "?S \<noteq> []" by simp
  from rerun_shape [OF assms(5) _ _ assms(2)] vb assms(6) ne
  have ok: ok and sh: "measurement b1 = mean_py ?S \<or>
      (2 \<le> length ?S \<and> deviation_stdev ?S = 0 \<and> measurement b1 = median_py ?S)"
    by simp_all
  from fs consider "measurement a1 = mean_py ?S"
    | "?S = valid_reads (reads a)" "2 \<le> length ?S" "deviation_stdev ?S = 0" "measurement a1 = median_py ?S"
    by auto
  then have "measurement b1 = measurement a1"
  proof cases
    case 1
    from sh show ?thesis
    proof
      assume "measurement b1 = mean_py ?S"
      with 1 show ?thesis by simp
    next
      assume z: "2 \<le> length ?S \<and> deviation_stdev ?S = 0 \<and> measurement b1 = median_py ?S"
      then have "mean_py ?S = median_py ?S" using zero_spread_median_is_mean by blast
      with 1 z show ?thesis by simp
    qed
  next
    case 2
    from sh show ?thesis
    proof
      assume "measurement b1 = mean_py ?S"
      with 2 zero_spread_median_is_mean [OF 2(2,3)] show ?thesis by simp
    next
      assume "2 \<le> length ?S \<and> deviation_stdev ?S = 0 \<and> measurement b1 = median_py ?S"
      with 2 show ?thesis by simp
    qed
  qed
  with ok show ?thesis by simp
qed

theorem rerun_keeping_all_survivors_witness:
  "batch_state ((init_set_of_reads (ADC_init 5))\<lparr>reads := [Some 1, Some 2, Some 3]\<rparr>) \<and>
   batch_state ((init_set_of_reads (ADC_init 9))\<lparr>reads := [Some 1, Some 2, Some 3]\<rparr>) \<and>
   calculate_measurement ((init_set_of_reads (ADC_init 5))\<lparr>reads := [Some 1, Some 2, Some 3]\<rparr>) =
     Inr (True, adc_after_1_2_3) \<and>
   map Some (reads_filtered adc_after_1_2_3) = [Some 1, Some 2, Some 3] \<and>
   calculate_measurement ((init_set_of_reads (ADC_init 9))\<lparr>reads := [Some 1, Some 2, Some 3]\<rparr>) =
     Inr (True, adc_after_1_2_3\<lparr>dout_pin := 9\<rparr>) \<and>
   reads_filtered (adc_after_1_2_3\<lparr>dout_pin := 9\<rparr>) = reads_filtered adc_after_1_2_3 \<and>
   measurement (adc_after_1_2_3\<lparr>dout_pin := 9\<rparr>) = measurement adc_after_1_2_3 \<and>
   measurement adc_after_1_2_3 = Some 2"
proof -
  let ?a = "(init_set_of_reads (ADC_init 5))\<lparr>reads := [Some 1, Some 2, Some 3]\<rparr>"
  let ?b = "(init_set_of_reads (ADC_init 9))\<lparr>reads := [Some 1, Some 2, Some 3]\<rparr>"
  have ba: "batch_state ?a" and bb: "batch_state ?b" by (rule batch_state_fixture)+
  have ca: "calculate_measurement ?a = Inr (True, adc_after_1_2_3)"
    by (simp add: adc_after_1_2_3_def calculate_measurement_def filter_and_mean_def stdev_py_def
        mean_py_def stat_eval init_set_of_reads_def init_raw_read_def ADC_init_def
        sqrt_gt_iff ratio_le_iff power2_eq_square)
  have cb: "calculate_measurement ?b = Inr (True, adc_after_1_2_3\<lparr>dout_pin := 9\<rparr>)"
    by (simp add: adc_after_1_2_3_def calculate_measurement_def filter_and_mean_def stdev_py_def
        mean_py_def stat_eval init_set_of_reads_def init_raw_read_def ADC_init_def
        sqrt_gt_iff ratio_le_iff power2_eq_square)
  have rb: "reads ?b = map Some (reads_filtered adc_after_1_2_3)"
    and rf: "reads_filtered (adc_after_1_2_3\<lparr>dout_pin := 9\<rparr>) = reads_filtered adc_after_1_2_3"
    and m: "measurement adc_after_1_2_3 = Some 2"
    by (simp_all add: adc_after_1_2_3_def)
  show ?thesis
    using rerun_keeping_all_survivors [OF ba bb ca rb cb rf] ba bb ca cb rb rf m by simp
qed

text \<open>
  The batch 0, 0, 0, 0, 1, 10 on a freshly constructed ADC: the ratio filter removes 10
  and the measurement is the mean 1/5 of the survivors 0, 0, 0, 0, 1. Aggregation of a
  batch made of these survivors removes 1 as well, and its measurement is 0.
\<close>

theorem aggregation_not_idempotent:
  "calculate_measurement ((init_set_of_reads (ADC_init 5))\<lparr>reads := [Some 0, Some 0, Some 0, Some 0, Some 1, Some 10]\<rparr>) =
     Inr (True, (init_set_of_reads (ADC_init 5))
                   \<lparr>reads := [Some 0, Some 0, Some 0, Some 0, Some 1, Some 10],
                    reads_filtered := [0, 0, 0, 0, 1],
                    read_med := Some 0, devs_from_med := [0, 0, 0, 0, 1, 10],
                    read_stdev := sqrt (97 / 6),
                    ratios_to_stdev := [0, 0, 0, 0, 1 / sqrt (97 / 6), 10 / sqrt (97 / 6)],
                    measurement := Some (1 / 5), measurement_from_zero := Some (1 / 5),
                    weight := Some (1 / 5)\<rparr>) \<and>
   calculate_measurement ((init_set_of_reads (ADC_init 5))\<lparr>reads := map Some [0, 0, 0, 0, 1]\<rparr>) =
     Inr (True, (init_set_of_reads (ADC_init 5))
                   \<lparr>reads := map Some [0, 0, 0, 0, 1],
                    reads_filtered := [0, 0, 0, 0],
                    read_med := Some 0, devs_from_med := [0, 0, 0, 0, 1],
                    read_stdev := sqrt (1 / 5),
                    ratios_to_stdev := [0, 0, 0, 0, 1 / sqrt (1 / 5)],
                    measurement := Some 0, measurement_from_zero := Some 0,
                    weight := Some 0\<rparr>)"
  by (simp add: calculate_measurement_def filter_and_mean_def stdev_py_def mean_py_def stat_eval
      init_set_of_reads_def init_raw_read_def ADC_init_def sqrt_gt_iff ratio_le_iff power2_eq_square)

end
